theory Spec2Isabelle
  imports Complex_Main "HOL-Library.Word" "HOL-Library.Multiset"
begin

section \<open>JavaScript values used by the game\<close>

text \<open>
  A JavaScript \<open>number\<close> that the shuffle receives is either \<open>NaN\<close> or an integer
  (\<open>nonce\<close> is a game counter, \<open>bombCount\<close> a slider value). Fractions and the
  infinities are not part of this type.
\<close>

datatype number = NaN | Number int

fun isNaN :: "number \<Rightarrow> bool" where
  "isNaN NaN = True"
| "isNaN (Number n) = False"

text \<open>\<open>a + b\<close> and \<open>a % b\<close> on numbers: \<open>NaN\<close> is absorbing, \<open>x % 0\<close> is \<open>NaN\<close>,
  and the remainder takes the sign of the dividend.\<close>

fun js_add :: "number \<Rightarrow> number \<Rightarrow> number" where
  "js_add (Number a) (Number b) = Number (a + b)"
| "js_add a b = NaN"

fun js_mod :: "number \<Rightarrow> number \<Rightarrow> number" where
  "js_mod (Number a) (Number b) =
     (if b = 0 then NaN else Number (sgn a * (\<bar>a\<bar> mod \<bar>b\<bar>)))"
| "js_mod a b = NaN"

text \<open>Decimal digits of a natural number, as the template literal \<open>`${nonce}`\<close> prints
  an integer (JavaScript switches to exponent notation from \<open>10^21\<close> on, which no game
  counter reaches).\<close>

definition digitChar :: "nat \<Rightarrow> char" where
  "digitChar d = char_of (48 + d)"

fun decimal :: "nat \<Rightarrow> string" where
  "decimal n = (if n < 10 then [digitChar n] else decimal (n div 10) @ [digitChar (n mod 10)])"

declare decimal.simps [simp del]

fun toString :: "number \<Rightarrow> string" where
  "toString NaN = ''NaN''"
| "toString (Number n) = (if n < 0 then CHR ''-'' # decimal (nat (- n)) else decimal (nat n))"

text \<open>\<open>s.substring(a, b)\<close> for \<open>a \<le> b\<close> (the only way the shuffle calls it): the
  characters from \<open>a\<close> up to \<open>b\<close>, both clamped to the length of \<open>s\<close>.\<close>

definition substring :: "string \<Rightarrow> nat \<Rightarrow> nat \<Rightarrow> string" where
  "substring s a b = take (b - a) (drop a s)"

text \<open>\<open>parseInt(s, 16)\<close>: skip leading white space, read a sign, skip a \<open>0x\<close> prefix,
  then read the longest run of hexadecimal digits; \<open>NaN\<close> when that run is empty.\<close>

definition hexVal :: "char \<Rightarrow> nat option" where
  "hexVal c =
     (let n = of_char c :: nat in
      if 48 \<le> n \<and> n \<le> 57 then Some (n - 48)
      else if 97 \<le> n \<and> n \<le> 102 then Some (n - 87)
      else if 65 \<le> n \<and> n \<le> 70 then Some (n - 55)
      else None)"

fun hexRun :: "string \<Rightarrow> nat \<Rightarrow> nat" where
  "hexRun [] acc = acc"
| "hexRun (c # cs) acc = (case hexVal c of None \<Rightarrow> acc | Some d \<Rightarrow> hexRun cs (16 * acc + d))"

definition isWhite :: "char \<Rightarrow> bool" where
  "isWhite c = (of_char c \<in> {9, 10, 11, 12, 13, 32 :: nat})"

definition hexMagnitude :: "string \<Rightarrow> nat option" where
  "hexMagnitude s =
     (let t = (if take 2 s = ''0x'' \<or> take 2 s = ''0X'' then drop 2 s else s) in
      case t of [] \<Rightarrow> None
      | c # cs \<Rightarrow> (case hexVal c of None \<Rightarrow> None | Some d \<Rightarrow> Some (hexRun t 0)))"

definition parseInt16 :: "string \<Rightarrow> number" where
  "parseInt16 s =
     (let t = dropWhile isWhite s;
          neg = (take 1 t = ''-'');
          u = (if take 1 t = ''-'' \<or> take 1 t = ''+'' then drop 1 t else t) in
      case hexMagnitude u of
        None \<Rightarrow> NaN
      | Some m \<Rightarrow> Number (if neg then - int m else int m))"

section \<open>The hash\<close>

text \<open>
  \<open>crypto.SHA256\<close> belongs to the crypto-js library, not to this repository: it is a
  parameter \<open>sha256\<close> of the model. Its result is a crypto-js \<open>WordArray\<close> of eight
  32-bit words; \<open>d k\<close> is word \<open>k\<close> of the digest \<open>d\<close>, for \<open>k\<close> from 0 to 7.
  \<open>toString(crypto.enc.Hex)\<close> prints the 32 bytes of the digest in order, two lowercase
  hexadecimal characters each, which is eight characters for each word, most significant
  nibble first.
\<close>

type_synonym digest = "nat \<Rightarrow> 32 word"

definition hexDigit :: "nat \<Rightarrow> char" where
  "hexDigit d = ''0123456789abcdef'' ! d"

definition nibble :: "32 word \<Rightarrow> nat \<Rightarrow> nat" where
  "nibble w t = unat (take_bit 4 (drop_bit (4 * (7 - t)) w))"

definition hexWord :: "32 word \<Rightarrow> string" where
  "hexWord w = map (\<lambda>t. hexDigit (nibble w t)) [0..<8]"

definition toHex :: "digest \<Rightarrow> string" where
  "toHex d = concat (map (\<lambda>k. hexWord (d k)) [0..<8])"

section \<open>The shuffle: \<open>generateBombLocations\<close>\<close>

text \<open>
  A JavaScript array of numbers is a list whose entries are numbers or \<open>undefined\<close>
  (\<open>None\<close>). Reading \<open>tiles[j]\<close> gives \<open>undefined\<close> unless \<open>j\<close> is an index of the
  array; writing \<open>tiles[j] = v\<close> with a \<open>j\<close> that is \<open>NaN\<close> or negative sets a property
  that is not an entry and leaves the entries as they are. (A write beyond the end would
  extend the array; the shuffle only writes at \<open>i\<close> and at \<open>j\<close> with \<open>\<bar>j\<bar> \<le> i\<close>, below the
  length.)
\<close>

definition arrayGet :: "'a option list \<Rightarrow> number \<Rightarrow> 'a option" where
  "arrayGet xs j =
     (case j of NaN \<Rightarrow> None
      | Number n \<Rightarrow> if 0 \<le> n \<and> nat n < length xs then xs ! nat n else None)"

definition arraySet :: "'a option list \<Rightarrow> number \<Rightarrow> 'a option \<Rightarrow> 'a option list" where
  "arraySet xs j v =
     (case j of NaN \<Rightarrow> xs
      | Number n \<Rightarrow> if 0 \<le> n \<and> nat n < length xs then xs[nat n := v] else xs)"

text \<open>
  The destructuring swap \<open>[tiles[i], tiles[j]] = [tiles[j], tiles[i]]\<close> reads both
  entries, then writes \<open>tiles[i]\<close>, then \<open>tiles[j]\<close>.
\<close>

definition swapEntries :: "'a option list \<Rightarrow> number \<Rightarrow> number \<Rightarrow> 'a option list" where
  "swapEntries xs i j =
     (let atJ = arrayGet xs j;
          atI = arrayGet xs i
      in arraySet (arraySet xs i atJ) j atI)"

text \<open>
  The loop \<open>for (let i = tiles.length - 1; i > 0; i--)\<close> with the array and the current
  hash as its state.
\<close>

fun fy_loop :: "(string \<Rightarrow> digest) \<Rightarrow> nat \<Rightarrow> nat option list \<Rightarrow> string \<Rightarrow> nat option list" where
  "fy_loop sha256 i tiles currentHash =
     (if 0 < i then
        (let hashSegment = substring currentHash ((i mod 8) * 8) ((i mod 8) * 8 + 8);
             randInt = parseInt16 hashSegment;
             j = js_mod randInt (Number (int i + 1))
         in fy_loop sha256 (i - 1) (swapEntries tiles (Number (int i)) j)
              (toHex (sha256 currentHash)))
      else tiles)"

declare fy_loop.simps [simp del]

text \<open>\<open>tiles.slice(0, bombCount)\<close>: a negative end counts from the end of the array.\<close>

fun slice0 :: "'a list \<Rightarrow> number \<Rightarrow> 'a list" where
  "slice0 xs NaN = []"
| "slice0 xs (Number b) = (if b < 0 then take (nat (int (length xs) + b)) xs else take (nat b) xs)"

definition generateBombLocations ::
  "(string \<Rightarrow> digest) \<Rightarrow> string \<Rightarrow> string \<Rightarrow> number \<Rightarrow> number \<Rightarrow> nat option list" where
  "generateBombLocations sha256 serverSeed clientSeed nonce bombCount =
     (if serverSeed = [] \<or> clientSeed = [] \<or> isNaN nonce \<or> isNaN bombCount then []
      else
        (let combinedSeed = serverSeed @ ''-'' @ clientSeed @ ''-'' @ toString nonce;
             hash = toHex (sha256 combinedSeed);
             tiles = map Some [0..<25]
         in slice0 (fy_loop sha256 (length tiles - 1) tiles hash) bombCount))"

section \<open>The shuffle as the specification words it\<close>

text \<open>
  Written from the specification, for a board of \<open>N\<close> tiles: the combined string is
  hashed to \<open>digest0\<close>; step \<open>i\<close>, from \<open>N - 1\<close> down to \<open>1\<close>, takes the 8 characters of the
  current digest at offset \<open>(i mod 8) * 8\<close>, reads them as an unsigned 32-bit integer
  \<open>r\<close>, swaps positions \<open>i\<close> and \<open>r mod (i + 1)\<close>, and replaces the digest by the hash of
  its own hexadecimal text.
\<close>

definition spec_segment :: "string \<Rightarrow> nat \<Rightarrow> string" where
  "spec_segment d i = take 8 (drop ((i mod 8) * 8) d)"

definition spec_u32 :: "string \<Rightarrow> 32 word" where
  "spec_u32 seg = foldl (\<lambda>w c. 16 * w + word_of_nat (the (hexVal c))) 0 seg"

definition spec_swap :: "nat list \<Rightarrow> nat \<Rightarrow> nat \<Rightarrow> nat list" where
  "spec_swap p i j = p[i := p ! j, j := p ! i]"

definition spec_step :: "(string \<Rightarrow> digest) \<Rightarrow> nat \<Rightarrow> nat list \<times> string \<Rightarrow> nat list \<times> string" where
  "spec_step sha256 i s =
     (let r = spec_u32 (spec_segment (snd s) i);
          j = unat r mod (i + 1)
      in (spec_swap (fst s) i j, toHex (sha256 (snd s))))"

definition spec_digest0 :: "(string \<Rightarrow> digest) \<Rightarrow> string \<Rightarrow> string \<Rightarrow> int \<Rightarrow> string" where
  "spec_digest0 sha256 server_seed client_seed nonce =
     toHex (sha256 (server_seed @ ''-'' @ client_seed @ ''-'' @ toString (Number nonce)))"

definition spec_shuffle :: "(string \<Rightarrow> digest) \<Rightarrow> string \<Rightarrow> string \<Rightarrow> int \<Rightarrow> nat \<Rightarrow> nat list" where
  "spec_shuffle sha256 server_seed client_seed nonce N =
     fst (fold (spec_step sha256) (rev [1..<N])
            ([0..<N], spec_digest0 sha256 server_seed client_seed nonce))"


section \<open>The payout model: \<open>calculateMultiplier\<close>\<close>

text \<open>
  JavaScript computes with double-precision numbers; the model computes with exact
  rationals, so it says nothing about rounding. Where JavaScript would divide by zero
  (a \<open>chance\<close> of 0, reached only when \<open>safeRevealed\<close> exceeds \<open>25 - bombCount\<close>) it
  yields an infinity and HOL yields 0: the statements about the multiplier below stay
  where every divisor is positive.
\<close>

definition calculateMultiplier :: "int \<Rightarrow> int \<Rightarrow> rat" where
  "calculateMultiplier safeRevealed bombCount =
     (let totalTiles = 25;
          houseEdge = 99 / 100;
          chance = fold (\<lambda>i chance.
                      chance * (of_int (totalTiles - bombCount - int i) / of_int (totalTiles - int i)))
                    [0..<nat safeRevealed] 1
      in houseEdge / chance)"

section \<open>The solo round\<close>

datatype phase = Betting | Playing | Finished

record Tile =
  idT :: nat
  isRevealed :: bool
  isBomb :: bool
  isSelected :: bool

record soloState =
  gameState :: phase
  betAmount :: rat
  bombCount :: int
  tiles :: "Tile list"
  currentMultiplier :: rat
  safeRevealed :: int

definition initialState :: soloState where
  "initialState =
     \<lparr>gameState = Betting, betAmount = 1 / 10, bombCount = 5,
      tiles = map (\<lambda>i. \<lparr>idT = i, isRevealed = False, isBomb = False, isSelected = False\<rparr>) [0..<25],
      currentMultiplier = 1, safeRevealed = 0\<rparr>"

datatype action =
    SET_GAME_STATE phase
  | SET_BET_AMOUNT rat
  | SET_BOMB_COUNT int
  | RESET_GAME
  | INITIALIZE_GAME int "Tile list"
  | REVEAL_TILE nat
  | CASH_OUT

datatype error = TypeError

text \<open>
  The reducer. \<open>tiles[tileId]\<close> is \<open>undefined\<close> when \<open>tileId\<close> is not an index of the
  array, and reading \<open>tile.isRevealed\<close> then throws a \<open>TypeError\<close>. The toasts are
  messages on the screen and are not part of the state.
\<close>

fun gameReducer :: "soloState \<Rightarrow> action \<Rightarrow> error + soloState" where
  "gameReducer state (SET_GAME_STATE p) = Inr (state\<lparr>gameState := p\<rparr>)"
| "gameReducer state (SET_BET_AMOUNT v) = Inr (state\<lparr>betAmount := v\<rparr>)"
| "gameReducer state (SET_BOMB_COUNT v) = Inr (state\<lparr>bombCount := v\<rparr>)"
| "gameReducer state RESET_GAME =
     Inr (initialState\<lparr>betAmount := betAmount state, bombCount := bombCount state\<rparr>)"
| "gameReducer state (INITIALIZE_GAME b ts) =
     Inr (state\<lparr>bombCount := b, tiles := ts, gameState := Playing, safeRevealed := 0,
                currentMultiplier := 1\<rparr>)"
| "gameReducer state (REVEAL_TILE tileId) =
     (if length (tiles state) \<le> tileId then Inl TypeError
      else
        (let tile = tiles state ! tileId in
         if isRevealed tile then Inr state
         else if isBomb tile then
           Inr (state\<lparr>gameState := Finished,
                      tiles := map (\<lambda>t. t\<lparr>isRevealed := True\<rparr>) (tiles state)\<rparr>)
         else
           (let newSafeRevealed = safeRevealed state + 1;
                newMultiplier = calculateMultiplier newSafeRevealed (bombCount state);
                newTiles = map (\<lambda>t. if idT t = tileId then t\<lparr>isRevealed := True\<rparr> else t)
                             (tiles state);
                allSafeTilesFound = (newSafeRevealed = 25 - bombCount state)
            in if allSafeTilesFound then
                 Inr (state\<lparr>tiles := map (\<lambda>t. t\<lparr>isRevealed := True\<rparr>) newTiles,
                            safeRevealed := newSafeRevealed,
                            currentMultiplier := newMultiplier,
                            gameState := Finished\<rparr>)
               else
                 Inr (state\<lparr>tiles := newTiles,
                            safeRevealed := newSafeRevealed,
                            currentMultiplier := newMultiplier\<rparr>))))"
| "gameReducer state CASH_OUT = Inr (state\<lparr>gameState := Finished\<rparr>)"

text \<open>
  The settlement effect of \<open>SoloMinesGame\<close>: it runs after a render in which the game
  state went from \<open>playing\<close> to \<open>finished\<close> and passes one record to \<open>addGame\<close>
  (\<open>None\<close>: nothing is recorded). Of the record, the amounts are modelled; the game
  mode, the seeds and the nonce are labels.
\<close>

record gameRecord =
  netProfit :: rat
  wageredAmount :: rat
  multiplier :: rat

definition settle :: "phase \<Rightarrow> soloState \<Rightarrow> gameRecord option" where
  "settle prevGameState state =
     (if prevGameState = Playing \<and> gameState state = Finished then
        (let isLoss = list_ex (\<lambda>tile. isBomb tile \<and> isRevealed tile) (tiles state) in
         if isLoss then
           Some \<lparr>netProfit = - betAmount state, wageredAmount = betAmount state, multiplier = 0\<rparr>
         else
           (let winAmount = betAmount state * currentMultiplier state;
                netProfit = winAmount - betAmount state
            in Some \<lparr>netProfit = netProfit, wageredAmount = betAmount state,
                      multiplier = currentMultiplier state\<rparr>))
      else None)"

text \<open>
  The callbacks of the component. \<open>initializeGame\<close> receives what it reads from its
  surroundings: the fresh server seed (32 hexadecimal characters from
  \<open>crypto.lib.WordArray.random(16)\<close>), the client seed of the user profile, if there is
  one, and \<open>totalGames\<close>. With a stake that is not positive it dispatches nothing.
\<close>

definition initializeGame ::
  "(string \<Rightarrow> digest) \<Rightarrow> string \<Rightarrow> string option \<Rightarrow> number \<Rightarrow> soloState \<Rightarrow> error + soloState" where
  "initializeGame sha256 newServerSeed profileClientSeed totalGames state =
     (if betAmount state \<le> 0 then Inr state
      else
        (let clientSeed = (case profileClientSeed of
                             None \<Rightarrow> ''not_available''
                           | Some c \<Rightarrow> if c = [] then ''not_available'' else c);
             nonce = js_add totalGames (Number 1);
             bombLocations = generateBombLocations sha256 newServerSeed clientSeed nonce
                               (Number (bombCount state));
             newTiles = map (\<lambda>i. \<lparr>idT = i, isRevealed = False,
                                    isBomb = (Some i \<in> set bombLocations),
                                    isSelected = False\<rparr>) [0..<25]
         in gameReducer state (INITIALIZE_GAME (bombCount state) newTiles)))"

definition revealTile :: "soloState \<Rightarrow> nat \<Rightarrow> error + soloState" where
  "revealTile state tileId =
     (if gameState state \<noteq> Playing then Inr state
      else gameReducer state (REVEAL_TILE tileId))"

definition cashOut :: "soloState \<Rightarrow> error + soloState" where
  "cashOut state =
     (if gameState state \<noteq> Playing \<or> safeRevealed state = 0 then Inr state
      else gameReducer state CASH_OUT)"

definition resetGame :: "soloState \<Rightarrow> error + soloState" where
  "resetGame state = gameReducer state RESET_GAME"

definition handleBetAmountChange :: "soloState \<Rightarrow> rat \<Rightarrow> error + soloState" where
  "handleBetAmountChange state v = gameReducer state (SET_BET_AMOUNT v)"

definition handleBombCountChange :: "soloState \<Rightarrow> int \<Rightarrow> error + soloState" where
  "handleBombCountChange state v = gameReducer state (SET_BOMB_COUNT v)"

section \<open>The duel round\<close>

text \<open>
  \<open>seedrandom\<close> belongs to a library, not to this repository: it is a parameter of the
  model. \<open>seedrandom seed k\<close> is the number that the generator made from \<open>seed\<close> returns
  on its call number \<open>k\<close>, counted from 0; the library promises a number from 0 up to,
  but not including, 1.
\<close>

datatype side = Player | Opponent

datatype verdict = Won side | Tie

record TileD =
  idD :: nat
  isRevealedD :: bool
  isBombD :: bool
  revealedBy :: "side option"

record GameState =
  tilesD :: "TileD list"
  activeTurn :: side
  playerScore :: int
  opponentScore :: int
  playerHasHitBomb :: bool
  opponentHasHitBomb :: bool
  gameOver :: bool
  winner :: "verdict option"
  minesPlaced :: bool
  betAmountD :: rat
  bombCountD :: int
  gameSeed :: string
  serverSeedD :: string
  clientSeedD :: string
  nonceD :: number

record CoinflipState =
  showC :: bool
  winnerC :: "side option"

text \<open>
  \<open>placeMines\<close> draws positions until the set holds \<open>bombCount\<close> of them. The loop need
  not end (no position other than the first click may ever come up), so the result is
  optional: \<open>None\<close> is a call that never returns. The set is kept as a list without
  repetitions.
\<close>

partial_function (option) placeMines_loop ::
  "(nat \<Rightarrow> rat) \<Rightarrow> nat \<Rightarrow> nat \<Rightarrow> int \<Rightarrow> nat \<Rightarrow> int list \<Rightarrow> int list option" where
  "placeMines_loop rng k firstClickedId bombs totalTiles minePositions =
     (if int (length minePositions) < bombs then
        placeMines_loop rng (k + 1) firstClickedId bombs totalTiles
          (if \<lfloor>rng k * of_nat totalTiles\<rfloor> \<noteq> int firstClickedId
           then List.insert \<lfloor>rng k * of_nat totalTiles\<rfloor> minePositions
           else minePositions)
      else Some minePositions)"

definition placeMines ::
  "(string \<Rightarrow> nat \<Rightarrow> rat) \<Rightarrow> nat \<Rightarrow> int \<Rightarrow> nat \<Rightarrow> string \<Rightarrow> int list option" where
  "placeMines seedrandom firstClickedId bombs totalTiles seed =
     placeMines_loop (seedrandom seed) 0 firstClickedId bombs totalTiles []"

text \<open>
  \<open>processMove\<close>, in the order of the source: the three rejections, the placing of the
  mines on the first move of a round whose mines are not placed yet, the reveal, the
  bust flag or the score, the end-of-round evaluation, and the end of the round or the
  passing of the turn. The parts are definitions of their own here; the local constant
  \<open>allSafeTilesRevealed\<close> is one of them.
\<close>

definition plantMines :: "int list \<Rightarrow> GameState \<Rightarrow> GameState" where
  "plantMines minePositions state =
     state\<lparr>tilesD := map (\<lambda>(index, tile).
                          if int index \<in> set minePositions then tile\<lparr>isBombD := True\<rparr> else tile)
                        (enumerate 0 (tilesD state)),
           minesPlaced := True\<rparr>"

definition revealBy :: "GameState \<Rightarrow> nat \<Rightarrow> side \<Rightarrow> GameState" where
  "revealBy state tileId moveMaker =
     (let tile = (tilesD state ! tileId)\<lparr>isRevealedD := True, revealedBy := Some moveMaker\<rparr>;
          state1 = state\<lparr>tilesD := (tilesD state)[tileId := tile]\<rparr>
      in if isBombD tile then
           (if moveMaker = Player then state1\<lparr>playerHasHitBomb := True\<rparr>
            else state1\<lparr>opponentHasHitBomb := True\<rparr>)
         else
           (if moveMaker = Player then state1\<lparr>playerScore := playerScore state1 + 1\<rparr>
            else state1\<lparr>opponentScore := opponentScore state1 + 1\<rparr>))"

definition allSafeTilesRevealed :: "GameState \<Rightarrow> bool" where
  "allSafeTilesRevealed state =
     (int (length (filter (\<lambda>t. \<not> isBombD t \<and> isRevealedD t) (tilesD state)))
        = 25 - bombCountD state)"

definition coinFlipWinner :: "(string \<Rightarrow> nat \<Rightarrow> rat) \<Rightarrow> GameState \<Rightarrow> side" where
  "coinFlipWinner seedrandom state =
     (if seedrandom (gameSeed state @ ''tie'') 0 < 1 / 2 then Player else Opponent)"

text \<open>
  The evaluation gives the local variables \<open>gameOver\<close> and \<open>winner\<close> and the coinflip
  state after the calls of \<open>setCoinflip\<close>, if any.
\<close>

definition evaluateEnd ::
  "(string \<Rightarrow> nat \<Rightarrow> rat) \<Rightarrow> GameState \<Rightarrow> CoinflipState \<Rightarrow> bool \<times> side option \<times> CoinflipState" where
  "evaluateEnd seedrandom state coinflip =
     (if allSafeTilesRevealed state then
        (if playerScore state > opponentScore state then (True, Some Player, coinflip)
         else if opponentScore state > playerScore state then (True, Some Opponent, coinflip)
         else (True, None, \<lparr>showC = True, winnerC = Some (coinFlipWinner seedrandom state)\<rparr>))
      else if playerHasHitBomb state \<and> opponentScore state > playerScore state then
        (True, Some Opponent, coinflip)
      else if opponentHasHitBomb state \<and> playerScore state > opponentScore state then
        (True, Some Player, coinflip)
      else if playerHasHitBomb state \<and> opponentHasHitBomb state then
        (if playerScore state > opponentScore state then (True, Some Player, coinflip)
         else if opponentScore state > playerScore state then (True, Some Opponent, coinflip)
         else (True, None, \<lparr>showC = True, winnerC = Some (coinFlipWinner seedrandom state)\<rparr>))
      else (False, None, coinflip))"

text \<open>The record that the duel passes to \<open>addGame\<close> for a winner.\<close>

definition duelRecord :: "GameState \<Rightarrow> side \<Rightarrow> gameRecord" where
  "duelRecord state w =
     \<lparr>netProfit = (if w = Player then betAmountD state else - betAmountD state),
      wageredAmount = betAmountD state,
      multiplier = (if w = Player then 2 else 0)\<rparr>"

text \<open>
  A call of \<open>processMove\<close> is rejected (it returns before \<open>setState\<close>), throws (reading
  \<open>tile.isRevealed\<close> of a tile that is not on the board; \<open>setState\<close> is not reached
  either), or is accepted with the new game state, the new coinflip state and the record
  for \<open>addGame\<close>, if there is one.
\<close>

datatype moveResult = Rejected | Threw error | Accepted GameState CoinflipState "gameRecord option"

definition concludeMove ::
  "(string \<Rightarrow> nat \<Rightarrow> rat) \<Rightarrow> GameState \<Rightarrow> CoinflipState \<Rightarrow> side \<Rightarrow> moveResult" where
  "concludeMove seedrandom state coinflip moveMaker =
     (case evaluateEnd seedrandom state coinflip of
        (over, w, coinflip') \<Rightarrow>
          if over then
            (case w of
               Some v \<Rightarrow>
                 Accepted
                   (state\<lparr>gameOver := True, winner := Some (Won v),
                          tilesD := map (\<lambda>tile. tile\<lparr>isRevealedD := True\<rparr>) (tilesD state)\<rparr>)
                   coinflip' (Some (duelRecord state v))
             | None \<Rightarrow> Accepted (state\<lparr>gameOver := True\<rparr>) coinflip' None)
          else
            Accepted
              (state\<lparr>activeTurn := (if moveMaker = Player then Opponent else Player)\<rparr>)
              coinflip' None)"

definition processMove ::
  "(string \<Rightarrow> nat \<Rightarrow> rat) \<Rightarrow> GameState \<Rightarrow> CoinflipState \<Rightarrow> nat \<Rightarrow> side \<Rightarrow> moveResult option" where
  "processMove seedrandom state coinflip tileId moveMaker =
     (if gameOver state then Some Rejected
      else if moveMaker = Player \<and> (playerHasHitBomb state \<or> activeTurn state \<noteq> Player)
        then Some Rejected
      else if moveMaker = Opponent \<and> (opponentHasHitBomb state \<or> activeTurn state \<noteq> Opponent)
        then Some Rejected
      else
        (case (if \<not> minesPlaced state then
                 map_option (\<lambda>minePositions. plantMines minePositions state)
                   (placeMines seedrandom tileId (bombCountD state) 25 (gameSeed state))
               else Some state) of
           None \<Rightarrow> None
         | Some state1 \<Rightarrow>
             if length (tilesD state1) \<le> tileId then Some (Threw TypeError)
             else Some (concludeMove seedrandom (revealBy state1 tileId moveMaker) coinflip
                          moveMaker)))"

text \<open>
  The effect of the component that runs on a change of the turn, of a bust flag or of
  \<open>gameOver\<close>: a side that has hit a bomb is skipped. (Otherwise, on the opponent's
  turn, it sets the timer for the bot's move, which is a call of \<open>processMove\<close>.)
\<close>

definition turnEffect :: "GameState \<Rightarrow> GameState" where
  "turnEffect state =
     (if gameOver state then state
      else if activeTurn state = Player \<and> playerHasHitBomb state
        then state\<lparr>activeTurn := Opponent\<rparr>
      else if activeTurn state = Opponent \<and> opponentHasHitBomb state
        then state\<lparr>activeTurn := Player\<rparr>
      else state)"

definition handleCoinflipComplete ::
  "GameState \<Rightarrow> CoinflipState \<Rightarrow> side \<Rightarrow> GameState \<times> CoinflipState \<times> gameRecord" where
  "handleCoinflipComplete state coinflip w =
     (state\<lparr>winner := Some (Won w)\<rparr>, coinflip\<lparr>showC := False\<rparr>, duelRecord state w)"

text \<open>
  What happens to a duel: a call of \<open>processMove\<close> for a tile by a side (the player's
  click or the bot's timer), a run of the turn effect, or the end of the coinflip
  animation, which the dialog shows only while the coinflip state has \<open>show\<close> set and a
  winner. A rejected or throwing call leaves both states as they are.
\<close>

datatype event = Move nat side | TurnEffect | CoinflipComplete side

definition applyEvent ::
  "(string \<Rightarrow> nat \<Rightarrow> rat) \<Rightarrow> GameState \<times> CoinflipState \<Rightarrow> event
     \<Rightarrow> (GameState \<times> CoinflipState) option" where
  "applyEvent seedrandom sc e =
     (case e of
        Move tileId moveMaker \<Rightarrow>
          (case processMove seedrandom (fst sc) (snd sc) tileId moveMaker of
             None \<Rightarrow> None
           | Some Rejected \<Rightarrow> Some sc
           | Some (Threw err) \<Rightarrow> Some sc
           | Some (Accepted state' coinflip' r) \<Rightarrow> Some (state', coinflip'))
      | TurnEffect \<Rightarrow> Some (turnEffect (fst sc), snd sc)
      | CoinflipComplete w \<Rightarrow>
          (if showC (snd sc) \<and> winnerC (snd sc) \<noteq> None
           then Some (fst (handleCoinflipComplete (fst sc) (snd sc) w),
                      fst (snd (handleCoinflipComplete (fst sc) (snd sc) w)))
           else Some sc))"

fun runEvents ::
  "(string \<Rightarrow> nat \<Rightarrow> rat) \<Rightarrow> GameState \<times> CoinflipState \<Rightarrow> event list
     \<Rightarrow> (GameState \<times> CoinflipState) option" where
  "runEvents seedrandom sc [] = Some sc"
| "runEvents seedrandom sc (e # es) =
     (case applyEvent seedrandom sc e of
        None \<Rightarrow> None
      | Some sc' \<Rightarrow> runEvents seedrandom sc' es)"

text \<open>
  The coinflip as the specification words it: a coin from
  \<open>SHA256(round_seed || "tie")\<close>, the digest read as a fraction of \<open>2^256\<close> and compared
  against one half.
\<close>

definition spec_normalized :: "digest \<Rightarrow> rat" where
  "spec_normalized d = of_nat (foldl (\<lambda>a k. a * 2 ^ 32 + unat (d k)) 0 [0..<8]) / 2 ^ 256"

definition spec_coinflip :: "(string \<Rightarrow> digest) \<Rightarrow> string \<Rightarrow> side" where
  "spec_coinflip sha256 round_seed =
     (if spec_normalized (sha256 (round_seed @ ''tie'')) < 1 / 2 then Player else Opponent)"

section \<open>Auxiliary notions for the proofs\<close>

text \<open>The value of a string of hexadecimal digits, and the strings made of such digits.\<close>

definition hexNum :: "string \<Rightarrow> nat" where
  "hexNum s = foldl (\<lambda>a c. 16 * a + the (hexVal c)) 0 s"

definition hexString :: "string \<Rightarrow> bool" where
  "hexString s = list_all (\<lambda>c. hexVal c \<noteq> None) s"

text \<open>
  A stand-in for the hash in the concrete runs below: it returns the same eight words
  for every input. The theorems hold for every function \<open>sha256\<close>.
\<close>

definition demoHash :: "string \<Rightarrow> digest" where
  "demoHash s k = [0x243f6a88, 0x85a308d3, 0x13198a2e, 0x03707344,
                   0xa4093822, 0x299f31d0, 0x082efa98, 0xec4e6c89] ! k"

text \<open>The probability that \<open>calculateMultiplier\<close> accumulates in its loop, after \<open>n\<close> rounds.\<close>

definition chance :: "nat \<Rightarrow> int \<Rightarrow> rat" where
  "chance n b = fold (\<lambda>i c. c * (of_int (25 - b - int i) / of_int (25 - int i))) [0..<n] 1"

text \<open>
  The states that the solo component reaches from \<open>initialState\<close> through its callbacks.
  The stake field and the bomb slider (from 1 to 24) are rendered only while the game
  state is \<open>betting\<close>; the other callbacks are taken as they are, with their own guards.
\<close>

inductive reachable :: "(string \<Rightarrow> digest) \<Rightarrow> soloState \<Rightarrow> bool"
  for sha256 :: "string \<Rightarrow> digest" where
  reach_initial: "reachable sha256 initialState"
| reach_bet:
    "reachable sha256 s \<Longrightarrow> gameState s = Betting \<Longrightarrow> handleBetAmountChange s v = Inr s'
     \<Longrightarrow> reachable sha256 s'"
| reach_bombs:
    "reachable sha256 s \<Longrightarrow> gameState s = Betting \<Longrightarrow> 1 \<le> v \<Longrightarrow> v \<le> 24
     \<Longrightarrow> handleBombCountChange s v = Inr s' \<Longrightarrow> reachable sha256 s'"
| reach_initialize:
    "reachable sha256 s \<Longrightarrow> initializeGame sha256 seed profileSeed totalGames s = Inr s'
     \<Longrightarrow> reachable sha256 s'"
| reach_reveal:
    "reachable sha256 s \<Longrightarrow> revealTile s tileId = Inr s' \<Longrightarrow> reachable sha256 s'"
| reach_cashOut:
    "reachable sha256 s \<Longrightarrow> cashOut s = Inr s' \<Longrightarrow> reachable sha256 s'"
| reach_reset:
    "reachable sha256 s \<Longrightarrow> resetGame s = Inr s' \<Longrightarrow> reachable sha256 s'"

definition solo_inv :: "soloState \<Rightarrow> bool" where
  "solo_inv s =
     (length (tiles s) = 25 \<and>
      list_all (\<lambda>i. idT (tiles s ! i) = i) [0..<25] \<and>
      (gameState s = Playing \<longrightarrow> list_all (\<lambda>t. \<not> (isBomb t \<and> isRevealed t)) (tiles s)) \<and>
      1 \<le> bombCount s \<and> bombCount s \<le> 24 \<and>
      (gameState s = Playing \<longrightarrow> 0 \<le> safeRevealed s \<and> safeRevealed s < 25 - bombCount s) \<and>
      0 < currentMultiplier s)"

text \<open>
  Two concrete rounds, as \<open>initializeGame\<close> starts them with the stand-in hash, the
  server seed \<open>abc\<close>, the client seed \<open>def\<close> and no earlier games: one with the 5 bombs
  of the initial state, one with 24 bombs, where tile 16 is the only safe tile.
\<close>

definition demoGame :: soloState where
  "demoGame =
     \<lparr>gameState = Playing, betAmount = 1 / 10, bombCount = 5,
      tiles = map (\<lambda>i. \<lparr>idT = i, isRevealed = False,
                         isBomb = (i \<in> set [19, 18, 15, 13, 3]), isSelected = False\<rparr>) [0..<25],
      currentMultiplier = 1, safeRevealed = 0\<rparr>"

definition jackpotGame :: soloState where
  "jackpotGame =
     \<lparr>gameState = Playing, betAmount = 1 / 10, bombCount = 24,
      tiles = map (\<lambda>i. \<lparr>idT = i, isRevealed = False, isBomb = (i \<noteq> 16), isSelected = False\<rparr>)
                [0..<25],
      currentMultiplier = 1, safeRevealed = 0\<rparr>"

text \<open>The bust flag of a side, and the other side.\<close>

definition hasHitBomb :: "side \<Rightarrow> GameState \<Rightarrow> bool" where
  "hasHitBomb m state = (case m of Player \<Rightarrow> playerHasHitBomb state
                         | Opponent \<Rightarrow> opponentHasHitBomb state)"

definition otherSide :: "side \<Rightarrow> side" where
  "otherSide m = (case m of Player \<Rightarrow> Opponent | Opponent \<Rightarrow> Player)"

text \<open>
  A duel in which the player has hit a bomb with one safe tile to their name, the
  opponent has one safe tile as well and is to move, and tile 2 is a bomb. Tiles 0 and 1
  are bombs too.
\<close>

definition duelTiles :: "TileD list" where
  "duelTiles =
     map (\<lambda>i. \<lparr>idD = i, isRevealedD = (i \<in> set [0, 3, 4]), isBombD = (i \<in> set [0, 1, 2]),
               revealedBy = (if i \<in> set [0, 3] then Some Player
                             else if i = 4 then Some Opponent else None)\<rparr>) [0..<25]"

definition duelGame :: GameState where
  "duelGame =
     \<lparr>tilesD = duelTiles, activeTurn = Opponent, playerScore = 1, opponentScore = 1,
      playerHasHitBomb = True, opponentHasHitBomb = False, gameOver = False, winner = None,
      minesPlaced = True, betAmountD = 1 / 100, bombCountD = 3,
      gameSeed = ''1700000000000'', serverSeedD = ''abc'', clientSeedD = ''def'',
      nonceD = Number 1\<rparr>"

definition noCoinflip :: CoinflipState where
  "noCoinflip = \<lparr>showC = False, winnerC = None\<rparr>"

text \<open>A stand-in for the generator in the concrete runs: every call returns \<open>3/4\<close>.\<close>

definition demoRandom :: "string \<Rightarrow> nat \<Rightarrow> rat" where
  "demoRandom seed k = 3 / 4"

text \<open>The coinflip winner that an accepted move has set, if any.\<close>

definition coinflipOf :: "moveResult option \<Rightarrow> side option" where
  "coinflipOf r = (case r of Some (Accepted state coinflip g) \<Rightarrow> winnerC coinflip | _ \<Rightarrow> None)"

section \<open>The hexadecimal text of a digest\<close>

lemma hexVal_lt: "hexVal c = Some d \<Longrightarrow> d < 16"
  by (auto simp: hexVal_def Let_def split: if_splits)

lemma hexVal_hexDigit:
  assumes "d < 16"
  shows "hexVal (hexDigit d) = Some d"
proof -
  have "list_all (\<lambda>d. hexVal (hexDigit d) = Some d) [0..<16]"
    by (simp add: hexVal_def hexDigit_def upt_rec [of _ "numeral n" for n])
  then show ?thesis
    using assms by (simp add: list_all_iff)
qed

lemma hexVal_not_white: "hexVal c = Some d \<Longrightarrow> \<not> isWhite c"
  by (auto simp: hexVal_def isWhite_def Let_def split: if_splits)

lemma hexVal_special: "hexVal CHR ''-'' = None" "hexVal CHR ''+'' = None"
  "hexVal CHR ''x'' = None" "hexVal CHR ''X'' = None"
  by (simp_all add: hexVal_def)

lemma nibble_lt: "nibble w t < 16"
proof -
  have "take_bit 4 (unat (drop_bit (4 * (7 - t)) w)) < 2 ^ 4"
    by (rule take_bit_nat_less_exp)
  then show ?thesis
    by (simp add: nibble_def unsigned_take_bit_eq)
qed

lemma length_hexWord: "length (hexWord w) = 8"
  by (simp add: hexWord_def)

lemma length_toHex: "length (toHex d) = 64"
  by (simp add: toHex_def length_concat length_hexWord comp_def sum_list_triv)

lemma hexString_toHex: "hexString (toHex d)"
  by (auto simp: hexString_def toHex_def hexWord_def list_all_iff hexVal_hexDigit nibble_lt)

lemma hexRun_foldl:
  "list_all (\<lambda>c. hexVal c \<noteq> None) s \<Longrightarrow>
   hexRun s acc = foldl (\<lambda>a c. 16 * a + the (hexVal c)) acc s"
  by (induction s arbitrary: acc) auto

lemma hexMagnitude_hex:
  assumes "hexString s" "s \<noteq> []"
  shows "hexMagnitude s = Some (hexNum s)"
proof -
  obtain c cs where s: "s = c # cs" using assms(2) by (cases s) auto
  then obtain d where d: "hexVal c = Some d" using assms(1) by (auto simp: hexString_def)
  have nox: "\<not> (take 2 s = ''0x'' \<or> take 2 s = ''0X'')"
  proof (cases cs)
    case Nil
    then show ?thesis using s by simp
  next
    case (Cons e es)
    then have "hexVal e \<noteq> None" using assms(1) s by (simp add: hexString_def)
    then have "e \<noteq> CHR ''x'' \<and> e \<noteq> CHR ''X''" using hexVal_special by auto
    then show ?thesis using s Cons by simp
  qed
  have "hexRun s 0 = hexNum s"
    using assms(1) by (simp add: hexRun_foldl hexString_def hexNum_def)
  then show ?thesis
    unfolding hexMagnitude_def if_not_P [OF nox] using s d by simp
qed

lemma parseInt16_hex:
  assumes "hexString s" "s \<noteq> []"
  shows "parseInt16 s = Number (int (hexNum s))"
proof -
  obtain c cs where s: "s = c # cs" using assms(2) by (cases s) auto
  then obtain d where d: "hexVal c = Some d" using assms(1) by (auto simp: hexString_def)
  have w: "dropWhile isWhite s = s"
    using s d hexVal_not_white by simp
  have sg: "take 1 s \<noteq> ''-'' \<and> take 1 s \<noteq> ''+''"
    using s d hexVal_special by auto
  show ?thesis
    using w sg hexMagnitude_hex [OF assms] by (simp add: parseInt16_def)
qed

lemma hexNum_bound_aux:
  "list_all (\<lambda>c. hexVal c \<noteq> None) s \<Longrightarrow>
   foldl (\<lambda>a c. 16 * a + the (hexVal c)) acc s < (acc + 1) * 16 ^ length s"
proof (induction s arbitrary: acc)
  case Nil
  then show ?case by simp
next
  case (Cons c s)
  then obtain d where d: "hexVal c = Some d" by auto
  then have "d < 16" by (rule hexVal_lt)
  then have "16 * acc + d + 1 \<le> (acc + 1) * 16" by simp
  then have le: "(16 * acc + d + 1) * 16 ^ length s \<le> ((acc + 1) * 16) * 16 ^ length s"
    by (rule mult_le_mono1)
  have "foldl (\<lambda>a c. 16 * a + the (hexVal c)) (16 * acc + d) s
      < (16 * acc + d + 1) * 16 ^ length s"
    using Cons by simp
  then have "foldl (\<lambda>a c. 16 * a + the (hexVal c)) (16 * acc + d) s
      < ((acc + 1) * 16) * 16 ^ length s"
    using le by (rule less_le_trans)
  moreover have "((acc + 1) * 16) * 16 ^ length s = (acc + 1) * 16 ^ length (c # s)"
    by (simp add: algebra_simps)
  moreover have "foldl (\<lambda>a c. 16 * a + the (hexVal c)) acc (c # s)
      = foldl (\<lambda>a c. 16 * a + the (hexVal c)) (16 * acc + d) s"
    using d by simp
  ultimately show ?case by metis
qed

lemma hexNum_bound: "hexString s \<Longrightarrow> hexNum s < 16 ^ length s"
  using hexNum_bound_aux [of s 0] by (simp add: hexNum_def hexString_def)

lemma spec_u32_aux:
  "foldl (\<lambda>w c. 16 * w + word_of_nat (the (hexVal c))) (word_of_nat acc :: 32 word) s
     = word_of_nat (foldl (\<lambda>a c. 16 * a + the (hexVal c)) acc s)"
proof (induction s arbitrary: acc)
  case Nil
  then show ?case by simp
next
  case (Cons c s)
  have "16 * (word_of_nat acc :: 32 word) + word_of_nat (the (hexVal c))
      = word_of_nat (16 * acc + the (hexVal c))"
    by simp
  then show ?case using Cons.IH [of "16 * acc + the (hexVal c)"] by simp
qed

lemma unat_spec_u32:
  assumes "hexString s" "length s = 8"
  shows "unat (spec_u32 s) = hexNum s"
proof -
  have "spec_u32 s = word_of_nat (hexNum s)"
    using spec_u32_aux [of 0 s] by (simp add: spec_u32_def hexNum_def)
  moreover have "hexNum s < 2 ^ 32"
    using hexNum_bound [OF assms(1)] assms(2) by simp
  ultimately show ?thesis
    by (simp add: of_nat_inverse)
qed

lemma js_mod_nat: "js_mod (Number (int n)) (Number (int i + 1)) = Number (int (n mod (i + 1)))"
  by (cases "n = 0") (simp_all add: zmod_int ac_simps)


lemma hexString_segment: "hexString h \<Longrightarrow> hexString (take n (drop m h))"
  by (auto simp: hexString_def list_all_iff dest: in_set_takeD in_set_dropD)

lemma swapEntries_index:
  "0 \<le> a \<Longrightarrow> 0 \<le> b \<Longrightarrow> nat a < length xs \<Longrightarrow> nat b < length xs \<Longrightarrow>
   swapEntries xs (Number a) (Number b) = xs[nat a := xs ! nat b, nat b := xs ! nat a]"
  by (simp add: swapEntries_def arrayGet_def arraySet_def)

lemma swapEntries_Some:
  assumes "i < length p" "j < length p"
  shows "swapEntries (map Some p) (Number (int i)) (Number (int j))
           = map Some (p[i := p ! j, j := p ! i])"
proof -
  have "swapEntries (map Some p) (Number (int i)) (Number (int j))
      = (map Some p)[nat (int i) := map Some p ! nat (int j), nat (int j) := map Some p ! nat (int i)]"
    by (rule swapEntries_index) (use assms in simp_all)
  then show ?thesis
    using assms by (simp add: map_update)
qed

lemma fy_loop_step:
  assumes "Suc i < length p" "length h = 64" "hexString h"
  defines "j \<equiv> unat (spec_u32 (spec_segment h (Suc i))) mod (Suc i + 1)"
  shows "fy_loop sha (Suc i) (map Some p) h
           = fy_loop sha i (map Some (p[Suc i := p ! j, j := p ! Suc i])) (toHex (sha h))"
proof -
  let ?seg = "take 8 (drop ((Suc i mod 8) * 8) h)"
  have seg: "substring h ((Suc i mod 8) * 8) ((Suc i mod 8) * 8 + 8) = ?seg"
    by (simp add: substring_def)
  have "(Suc i mod 8) * 8 + 8 \<le> 64"
    by (simp add: Suc_le_eq flip: less_Suc_eq_le) 
  then have len: "length ?seg = 8"
    using assms(2) by simp
  have hs: "hexString ?seg"
    using assms(3) by (rule hexString_segment)
  have ne: "?seg \<noteq> []"
    using len by auto
  have p: "parseInt16 ?seg = Number (int (hexNum ?seg))"
    using hs ne by (rule parseInt16_hex)
  have u: "unat (spec_u32 ?seg) = hexNum ?seg"
    using hs len by (rule unat_spec_u32)
  have j: "js_mod (parseInt16 ?seg) (Number (int (Suc i) + 1)) = Number (int j)"
    unfolding p js_mod_nat j_def spec_segment_def u ..
  have "j \<le> Suc i"
    unfolding j_def by (simp flip: less_Suc_eq_le)
  then have jlt: "j < length p"
    using assms(1) by simp
  have swap: "swapEntries (map Some p) (Number (int (Suc i))) (Number (int j))
              = map Some (p[Suc i := p ! j, j := p ! Suc i])"
    using assms(1) jlt by (rule swapEntries_Some)
  show ?thesis
    by (subst fy_loop.simps) (simp add: seg j swap Let_def del: of_nat_Suc)
qed

lemma fy_loop_spec:
  "i < length p \<Longrightarrow> length h = 64 \<Longrightarrow> hexString h \<Longrightarrow>
   fy_loop sha i (map Some p) h
     = map Some (fst (fold (spec_step sha) (rev [1..<Suc i]) (p, h)))"
proof (induction i arbitrary: p h)
  case 0
  then show ?case by (simp add: fy_loop.simps)
next
  case (Suc i)
  define j where "j = unat (spec_u32 (spec_segment h (Suc i))) mod (Suc i + 1)"
  define p' where "p' = p[Suc i := p ! j, j := p ! Suc i]"
  have step: "fy_loop sha (Suc i) (map Some p) h = fy_loop sha i (map Some p') (toHex (sha h))"
    unfolding p'_def j_def using Suc.prems by (rule fy_loop_step)
  have spec: "spec_step sha (Suc i) (p, h) = (p', toHex (sha h))"
    by (simp add: spec_step_def spec_swap_def p'_def j_def Let_def)
  have "i < length p'"
    using Suc.prems(1) by (simp add: p'_def)
  then have "fy_loop sha i (map Some p') (toHex (sha h))
      = map Some (fst (fold (spec_step sha) (rev [1..<Suc i]) (p', toHex (sha h))))"
    using length_toHex hexString_toHex by (rule Suc.IH)
  moreover have "rev [1..<Suc (Suc i)] = Suc i # rev [1..<Suc i]"
    by simp
  ultimately show ?case
    using step spec by (simp del: upt_Suc)
qed

lemma spec_fold_mset:
  "i < length p \<Longrightarrow> mset (fst (fold (spec_step sha) (rev [1..<Suc i]) (p, h))) = mset p"
proof (induction i arbitrary: p h)
  case 0
  then show ?case by simp
next
  case (Suc i)
  define j where "j = unat (spec_u32 (spec_segment h (Suc i))) mod (Suc i + 1)"
  define p' where "p' = p[Suc i := p ! j, j := p ! Suc i]"
  have spec: "spec_step sha (Suc i) (p, h) = (p', toHex (sha h))"
    by (simp add: spec_step_def spec_swap_def p'_def j_def Let_def)
  have "j \<le> Suc i"
    unfolding j_def by (simp flip: less_Suc_eq_le)
  then have "j < length p"
    using Suc.prems by simp
  then have m: "mset p' = mset p"
    unfolding p'_def using Suc.prems by (rule mset_swap)
  have "i < length p'"
    using Suc.prems by (simp add: p'_def)
  then have "mset (fst (fold (spec_step sha) (rev [1..<Suc i]) (p', toHex (sha h)))) = mset p'"
    by (rule Suc.IH)
  moreover have "rev [1..<Suc (Suc i)] = Suc i # rev [1..<Suc i]"
    by simp
  ultimately show ?case
    using spec m by (simp del: upt_Suc)
qed

lemma spec_shuffle_mset: "mset (spec_shuffle sha s c n (Suc N)) = mset [0..<Suc N]"
proof -
  have "N < length [0..<Suc N]" by simp
  then show ?thesis
    unfolding spec_shuffle_def by (rule spec_fold_mset)
qed

lemma generateBombLocations_spec:
  assumes "serverSeed \<noteq> []" and "clientSeed \<noteq> []"
  shows "generateBombLocations sha256 serverSeed clientSeed (Number nonce) bomb_count
           = slice0 (map Some (spec_shuffle sha256 serverSeed clientSeed nonce 25)) bomb_count"
proof (cases bomb_count)
  case NaN
  then show ?thesis by (simp add: generateBombLocations_def)
next
  case (Number b)
  let ?h = "toHex (sha256 (serverSeed @ ''-'' @ clientSeed @ ''-'' @ toString (Number nonce)))"
  have "fy_loop sha256 24 (map Some [0..<25]) ?h
      = map Some (fst (fold (spec_step sha256) (rev [1..<Suc 24]) ([0..<25], ?h)))"
    by (rule fy_loop_spec) (simp_all add: length_toHex hexString_toHex)
  then have "fy_loop sha256 24 (map Some [0..<25]) ?h
      = map Some (spec_shuffle sha256 serverSeed clientSeed nonce 25)"
    by (simp add: spec_shuffle_def spec_digest0_def)
  then show ?thesis
    using assms Number by (simp add: generateBombLocations_def Let_def)
qed

section \<open>A concrete run of the shuffle\<close>

lemma toHex_demoHash:
  "toHex (demoHash s) = ''243f6a8885a308d313198a2e03707344a4093822299f31d0082efa98ec4e6c89''"
  by (simp add: toHex_def hexWord_def demoHash_def nibble_def hexDigit_def
      upt_rec [of _ "numeral n" for n])

lemma list_update_numeral: "(x # xs)[numeral n := y] = x # xs[pred_numeral n := y]"
  by (simp add: numeral_eq_Suc)

lemma fy_loop_demo:
  "fy_loop demoHash 24 (map Some [0..<25]) (toHex (demoHash s))
     = map Some [19, 18, 15, 13, 3, 11, 22, 12, 2, 17, 10, 4, 24, 21, 6, 9, 23, 5, 7, 8, 20, 0, 14, 1, 16]"
  by (simp add: fy_loop.simps toHex_demoHash substring_def parseInt16_def
      hexMagnitude_def hexVal_def isWhite_def swapEntries_index list_update_numeral
      upt_rec [of _ "numeral n" for n] Let_def cong: let_weak_cong)

lemma generateBombLocations_demo:
  "generateBombLocations demoHash (c # cs) (d # ds) (Number n) (Number b)
     = slice0 (map Some [19, 18, 15, 13, 3, 11, 22, 12, 2, 17, 10, 4, 24, 21, 6, 9, 23, 5, 7, 8,
                         20, 0, 14, 1, 16]) (Number b)"
  by (simp add: generateBombLocations_def fy_loop_demo Let_def del: slice0.simps)

section \<open>Claims about the shuffle\<close>

text \<open>
  Claim C1. For non-empty seeds, every integer nonce and the board of 25 tiles,
  \<open>generateBombLocations\<close> returns the first \<open>bombCount\<close> entries of the permutation that
  the specification's algorithm computes: the Fisher-Yates steps from \<open>i = 24\<close> down to
  \<open>i = 1\<close>, each reading the 8 hexadecimal characters at offset \<open>(i mod 8) * 8\<close> of the
  current digest as an unsigned 32-bit integer \<open>r\<close>, swapping positions \<open>i\<close> and
  \<open>r mod (i + 1)\<close>, and rehashing the hexadecimal text of the digest, from the digest of
  \<open>server_seed-client_seed-nonce\<close>. With \<open>bombCount = 25\<close> the result is the whole
  permutation.
\<close>

theorem C1_shuffle_as_specified:
  assumes "serverSeed \<noteq> []" and "clientSeed \<noteq> []"
  shows "generateBombLocations sha256 serverSeed clientSeed (Number nonce) (Number bomb_count)
           = slice0 (map Some (spec_shuffle sha256 serverSeed clientSeed nonce 25)) (Number bomb_count)"
  using assms by (rule generateBombLocations_spec)

theorem C1_shuffle_as_specified_witness:
  "''abc'' \<noteq> [] \<and> ''def'' \<noteq> [] \<and>
   generateBombLocations demoHash ''abc'' ''def'' (Number 1) (Number 25)
     = slice0 (map Some (spec_shuffle demoHash ''abc'' ''def'' 1 25)) (Number 25) \<and>
   generateBombLocations demoHash ''abc'' ''def'' (Number 1) (Number 25)
     = map Some [19, 18, 15, 13, 3, 11, 22, 12, 2, 17, 10, 4, 24, 21, 6, 9, 23, 5, 7, 8, 20, 0, 14, 1, 16]"
proof -
  have a: "''abc'' \<noteq> []" and b: "''def'' \<noteq> []"
    by simp_all
  have "generateBombLocations demoHash ''abc'' ''def'' (Number 1) (Number 25)
     = slice0 (map Some (spec_shuffle demoHash ''abc'' ''def'' 1 25)) (Number 25)"
    using a b by (rule C1_shuffle_as_specified)
  moreover have "generateBombLocations demoHash ''abc'' ''def'' (Number 1) (Number 25)
     = map Some [19, 18, 15, 13, 3, 11, 22, 12, 2, 17, 10, 4, 24, 21, 6, 9, 23, 5, 7, 8, 20, 0, 14, 1, 16]"
    by (simp add: generateBombLocations_demo)
  ultimately show ?thesis by simp
qed

text \<open>
  Claim C5. For non-empty seeds, every integer nonce and \<open>bombCount\<close> from 1 to 24, the
  array that the loop leaves before \<open>slice\<close> is a bijection on \<open>{0..<25}\<close>, and the
  \<open>bombCount\<close> indices returned are pairwise distinct and lie in \<open>{0..<25}\<close>.
\<close>

theorem C5_shuffle_is_permutation:
  assumes "serverSeed \<noteq> []" and "clientSeed \<noteq> []"
    and "1 \<le> bomb_count" and "bomb_count \<le> 24"
  shows "\<exists>perm.
      fy_loop sha256 24 (map Some [0..<25])
        (toHex (sha256 (serverSeed @ ''-'' @ clientSeed @ ''-'' @ toString (Number nonce))))
        = map Some perm \<and>
      length perm = 25 \<and> distinct perm \<and> set perm = {0..<25} \<and>
      bij_betw (\<lambda>i. perm ! i) {0..<25} {0..<25} \<and>
      generateBombLocations sha256 serverSeed clientSeed (Number nonce) (Number bomb_count)
        = map Some (take (nat bomb_count) perm) \<and>
      length (take (nat bomb_count) perm) = nat bomb_count \<and>
      distinct (take (nat bomb_count) perm) \<and>
      set (take (nat bomb_count) perm) \<subseteq> {0..<25}"
proof -
  let ?h = "toHex (sha256 (serverSeed @ ''-'' @ clientSeed @ ''-'' @ toString (Number nonce)))"
  define perm where "perm = spec_shuffle sha256 serverSeed clientSeed nonce 25"
  have "fy_loop sha256 24 (map Some [0..<25]) ?h
      = map Some (fst (fold (spec_step sha256) (rev [1..<Suc 24]) ([0..<25], ?h)))"
    by (rule fy_loop_spec) (simp_all add: length_toHex hexString_toHex)
  then have perm: "fy_loop sha256 24 (map Some [0..<25]) ?h = map Some perm"
    by (simp add: perm_def spec_shuffle_def spec_digest0_def)
  have m: "mset perm = mset [0..<25]"
    unfolding perm_def using spec_shuffle_mset [of sha256 serverSeed clientSeed nonce 24] by simp
  have len: "length perm = 25"
    using mset_eq_length [OF m] by simp
  have st: "set perm = {0..<25}"
    using mset_eq_setD [OF m] by simp
  have d: "distinct perm"
    using m distinct_upt mset_eq_imp_distinct_iff by blast
  have bij: "bij_betw (\<lambda>i. perm ! i) {0..<25} {0..<25}"
    using bij_betw_nth [OF d, of "{0..<25}" "{0..<25}"] len st
    by (simp add: atLeast0LessThan)
  have g: "generateBombLocations sha256 serverSeed clientSeed (Number nonce) (Number bomb_count)
        = map Some (take (nat bomb_count) perm)"
    using assms generateBombLocations_spec [OF assms(1,2), of sha256 nonce "Number bomb_count"]
    by (simp add: perm_def take_map)
  have "length (take (nat bomb_count) perm) = nat bomb_count"
    using assms len by simp
  moreover have "distinct (take (nat bomb_count) perm)"
    using d by (rule distinct_take)
  moreover have "set (take (nat bomb_count) perm) \<subseteq> {0..<25}"
    using set_take_subset [of "nat bomb_count" perm] st by simp
  ultimately show ?thesis
    using perm len d st bij g by blast
qed

theorem C5_shuffle_is_permutation_witness:
  "''abc'' \<noteq> [] \<and> ''def'' \<noteq> [] \<and> (1::int) \<le> 5 \<and> (5::int) \<le> 24 \<and>
   generateBombLocations demoHash ''abc'' ''def'' (Number 1) (Number 5)
     = map Some [19, 18, 15, 13, 3] \<and>
   distinct [19, 18, 15, 13, 3 :: nat] \<and> set [19, 18, 15, 13, 3 :: nat] \<subseteq> {0..<25}"
proof -
  have a: "''abc'' \<noteq> []" and b: "''def'' \<noteq> []" and c: "(1::int) \<le> 5" and d: "(5::int) \<le> 24"
    by simp_all
  obtain perm where
    g: "generateBombLocations demoHash ''abc'' ''def'' (Number 1) (Number 5)
        = map Some (take (nat 5) perm)"
    and p: "distinct (take (nat 5) perm)" "set (take (nat 5) perm) \<subseteq> {0..<25}"
    using C5_shuffle_is_permutation [OF a b c d, of demoHash 1] by blast
  have "generateBombLocations demoHash ''abc'' ''def'' (Number 1) (Number 5)
        = map Some [19, 18, 15, 13, 3]"
    by (simp add: generateBombLocations_demo)
  then have "take (nat 5) perm = [19, 18, 15, 13, 3]"
    using g by (simp add: map_eq_Cons_conv)
  then show ?thesis
    using g p by simp
qed


section \<open>Claims about the payout model\<close>

lemma calculateMultiplier_chance:
  "calculateMultiplier k b = (99 / 100) / chance (nat k) b"
  by (simp add: calculateMultiplier_def chance_def Let_def)

lemma chance_0: "chance 0 b = 1"
  by (simp add: chance_def)

lemma chance_Suc:
  "chance (Suc n) b = chance n b * (of_int (25 - b - int n) / of_int (25 - int n))"
  by (simp add: chance_def)

lemma chance_pos: "0 \<le> b \<Longrightarrow> int n \<le> 25 - b \<Longrightarrow> 0 < chance n b"
proof (induction n)
  case 0
  then show ?case by (simp add: chance_0)
next
  case (Suc n)
  have "0 < chance n b" using Suc by simp
  moreover have "(0::rat) < of_int (25 - b - int n) / of_int (25 - int n)"
    using Suc.prems by simp
  ultimately show ?case
    unfolding chance_Suc by (rule mult_pos_pos)
qed

lemma chance_step_less:
  assumes "1 \<le> b" "int (Suc n) \<le> 25 - b"
  shows "chance (Suc n) b < chance n b"
proof -
  have pos: "0 < chance n b"
    using assms by (intro chance_pos) simp_all
  have "(of_int (25 - b - int n) :: rat) < of_int (25 - int n)"
    using assms by simp
  moreover have "(0::rat) < of_int (25 - int n)"
    using assms by simp
  ultimately have "(of_int (25 - b - int n) / of_int (25 - int n) :: rat) < 1"
    by simp
  then have "chance n b * (of_int (25 - b - int n) / of_int (25 - int n)) < chance n b * 1"
    using pos by (rule mult_strict_left_mono)
  then show ?thesis
    by (simp add: chance_Suc)
qed

lemma chance_bombs_less:
  assumes "0 \<le> b" "0 < n" "int n \<le> 25 - (b + 1)"
  shows "chance n (b + 1) < chance n b"
  using assms(2,3)
proof (induction n)
  case 0
  then show ?case by simp
next
  case (Suc n)
  let ?f' = "of_int (25 - (b + 1) - int n) / of_int (25 - int n) :: rat"
  let ?f = "of_int (25 - b - int n) / of_int (25 - int n) :: rat"
  have d: "(0::rat) < of_int (25 - int n)"
    using Suc.prems assms(1) by simp
  have f'pos: "0 < ?f'"
    using Suc.prems assms(1) by simp
  have "(of_int (25 - (b + 1) - int n) :: rat) < of_int (25 - b - int n)"
    by simp
  then have ff: "?f' < ?f"
    using d by (rule divide_strict_right_mono)
  show ?case
  proof (cases "n = 0")
    case True
    then show ?thesis using ff by (simp add: chance_Suc chance_0)
  next
    case False
    then have "chance n (b + 1) < chance n b"
      using Suc by simp
    moreover have "0 < chance n (b + 1)"
      using Suc.prems assms(1) by (intro chance_pos) simp_all
    ultimately have "chance n (b + 1) * ?f' < chance n b * ?f"
      using ff f'pos by (intro mult_strict_mono) simp_all
    then show ?thesis
      by (simp only: chance_Suc)
  qed
qed

lemma multiplier_less:
  assumes "0 < c'" "c' < c"
  shows "(99 / 100 :: rat) / c < (99 / 100) / c'"
  using assms by (simp add: divide_strict_left_mono)

lemma upt_numeral_rec: "[i..<numeral n] = (if i < numeral n then i # [Suc i..<numeral n] else [])"
  by (rule upt_rec)

text \<open>
  Claim C8. With no safe tile revealed the loop does not run, the chance is 1, and the
  multiplier is the house edge \<open>0.99\<close>, whatever the number of bombs.
\<close>

theorem C8_multiplier_at_zero: "calculateMultiplier 0 b = 99 / 100"
  by (simp add: calculateMultiplier_def)

text \<open>
  Claim C6, as stated, asks for \<open>multiplier(k, b) < multiplier(k, b + 1)\<close> for every
  \<open>k\<close>. At \<open>k = 0\<close> both sides are the house edge: with 1 bomb and with 2 bombs the
  multiplier is \<open>0.99\<close>.
\<close>

theorem C6_counterexample:
  "calculateMultiplier 0 1 = 99 / 100 \<and> calculateMultiplier 0 2 = 99 / 100 \<and>
   \<not> calculateMultiplier 0 1 < calculateMultiplier 0 2"
  by (simp add: calculateMultiplier_def)

text \<open>
  Claim C6, amended. The multiplier is strictly increasing in \<open>safe_revealed\<close> for every
  \<open>bomb_count\<close> from 1 to 24, as long as \<open>safe_revealed + 1\<close> does not exceed the
  \<open>25 - bomb_count\<close> safe tiles; and it is strictly increasing in \<open>bomb_count\<close> for
  every \<open>safe_revealed\<close> that is at least 1 and does not exceed the safe tiles of the
  larger bomb count.
\<close>

theorem C6_multiplier_monotone:
  "(1 \<le> b \<and> b \<le> 24 \<and> 0 \<le> k \<and> k + 1 \<le> 25 - b
      \<longrightarrow> calculateMultiplier k b < calculateMultiplier (k + 1) b) \<and>
   (1 \<le> b \<and> b + 1 \<le> 24 \<and> 1 \<le> k \<and> k \<le> 25 - (b + 1)
      \<longrightarrow> calculateMultiplier k b < calculateMultiplier k (b + 1))"
proof (intro conjI impI)
  assume a: "1 \<le> b \<and> b \<le> 24 \<and> 0 \<le> k \<and> k + 1 \<le> 25 - b"
  then have n: "nat (k + 1) = Suc (nat k)"
    by (simp add: nat_add_distrib)
  have "chance (Suc (nat k)) b < chance (nat k) b"
    using a by (intro chance_step_less) simp_all
  moreover have "0 < chance (Suc (nat k)) b"
    using a by (intro chance_pos) simp_all
  ultimately show "calculateMultiplier k b < calculateMultiplier (k + 1) b"
    unfolding calculateMultiplier_chance n by (intro multiplier_less)
next
  assume a: "1 \<le> b \<and> b + 1 \<le> 24 \<and> 1 \<le> k \<and> k \<le> 25 - (b + 1)"
  have "chance (nat k) (b + 1) < chance (nat k) b"
    using a by (intro chance_bombs_less) simp_all
  moreover have "0 < chance (nat k) (b + 1)"
    using a by (intro chance_pos) simp_all
  ultimately show "calculateMultiplier k b < calculateMultiplier k (b + 1)"
    unfolding calculateMultiplier_chance by (intro multiplier_less)
qed

theorem C6_multiplier_monotone_witness:
  "((1::int) \<le> 5 \<and> (5::int) \<le> 24 \<and> (0::int) \<le> 1 \<and> (1::int) + 1 \<le> 25 - 5) \<and>
   ((1::int) \<le> 5 \<and> (5::int) + 1 \<le> 24 \<and> (1::int) \<le> 1 \<and> (1::int) \<le> 25 - (5 + 1)) \<and>
   calculateMultiplier 1 5 < calculateMultiplier (1 + 1) 5 \<and>
   calculateMultiplier 1 5 < calculateMultiplier 1 (5 + 1) \<and>
   calculateMultiplier 1 5 = 99 / 80 \<and> calculateMultiplier 2 5 = 297 / 190 \<and>
   calculateMultiplier 1 6 = 495 / 380"
proof -
  have "calculateMultiplier 1 5 = 99 / 80" "calculateMultiplier 2 5 = 297 / 190"
    "calculateMultiplier 1 6 = 495 / 380"
    by (simp_all add: calculateMultiplier_def upt_numeral_rec eval_nat_numeral)
  then show ?thesis
    using C6_multiplier_monotone [of 5 1] by simp
qed


section \<open>The solo round\<close>

lemma gameReducer_reveal_bomb:
  assumes "tileId < length (tiles s)" "isBomb (tiles s ! tileId)" "\<not> isRevealed (tiles s ! tileId)"
  shows "gameReducer s (REVEAL_TILE tileId)
           = Inr (s\<lparr>gameState := Finished, tiles := map (\<lambda>t. t\<lparr>isRevealed := True\<rparr>) (tiles s)\<rparr>)"
  using assms by (simp add: Let_def)

lemma settle_revealed_bomb:
  assumes "tileId < length (tiles s)" "isBomb (tiles s ! tileId)"
  shows "settle Playing (s\<lparr>gameState := Finished, tiles := map (\<lambda>t. t\<lparr>isRevealed := True\<rparr>) (tiles s)\<rparr>)
           = Some \<lparr>netProfit = - betAmount s, wageredAmount = betAmount s, multiplier = 0\<rparr>"
proof -
  have "tiles s ! tileId \<in> set (tiles s)"
    using assms(1) by simp
  then have "list_ex (\<lambda>tile. isBomb tile \<and> isRevealed tile) (map (\<lambda>t. t\<lparr>isRevealed := True\<rparr>) (tiles s))"
    using assms(2) by (auto simp: list_ex_iff)
  then show ?thesis
    by (simp add: settle_def)
qed

lemma all_revealed: "list_all isRevealed (map (\<lambda>t. t\<lparr>isRevealed := True\<rparr>) ts)"
  by (simp add: list_all_iff)

subsection \<open>An invariant of the reachable states\<close>

lemma solo_inv_initialState: "solo_inv initialState"
  by (simp add: solo_inv_def initialState_def list_all_iff)

lemma solo_inv_bet:
  "solo_inv s \<Longrightarrow> handleBetAmountChange s v = Inr s' \<Longrightarrow> solo_inv s'"
  by (auto simp: solo_inv_def handleBetAmountChange_def)

lemma solo_inv_bombs:
  "solo_inv s \<Longrightarrow> gameState s = Betting \<Longrightarrow> 1 \<le> v \<Longrightarrow> v \<le> 24 \<Longrightarrow>
   handleBombCountChange s v = Inr s' \<Longrightarrow> solo_inv s'"
  by (auto simp: solo_inv_def handleBombCountChange_def)

lemma solo_inv_initialize:
  assumes "solo_inv s" "initializeGame sha seed ps tg s = Inr s'"
  shows "solo_inv s'"
proof (cases "betAmount s \<le> 0")
  case True
  then show ?thesis using assms by (simp add: initializeGame_def)
next
  case False
  then show ?thesis
    using assms by (auto simp: initializeGame_def solo_inv_def Let_def list_all_iff)
qed

lemma solo_inv_reset: "solo_inv s \<Longrightarrow> resetGame s = Inr s' \<Longrightarrow> solo_inv s'"
  by (auto simp: solo_inv_def resetGame_def initialState_def list_all_iff)

lemma solo_inv_cashOut: "solo_inv s \<Longrightarrow> cashOut s = Inr s' \<Longrightarrow> solo_inv s'"
  by (auto simp: solo_inv_def cashOut_def split: if_splits)

lemma multiplier_pos:
  assumes "1 \<le> b" "0 \<le> k" "k \<le> 25 - b"
  shows "0 < calculateMultiplier k b"
proof -
  have "0 < chance (nat k) b"
    using assms by (intro chance_pos) simp_all
  then show ?thesis
    by (simp add: calculateMultiplier_chance)
qed

lemma solo_inv_reveal:
  assumes inv: "solo_inv s" and r: "revealTile s tileId = Inr s'"
  shows "solo_inv s'"
proof (cases "gameState s = Playing")
  case False
  then show ?thesis using inv r by (simp add: revealTile_def)
next
  case playing: True
  then have red: "gameReducer s (REVEAL_TILE tileId) = Inr s'"
    using r by (simp add: revealTile_def)
  then have lt: "tileId < length (tiles s)"
    by (auto split: if_splits)
  let ?tile = "tiles s ! tileId"
  from inv have len: "length (tiles s) = 25"
    and ids: "\<And>i. i < 25 \<Longrightarrow> idT (tiles s ! i) = i"
    and nobomb: "\<And>t. t \<in> set (tiles s) \<Longrightarrow> \<not> (isBomb t \<and> isRevealed t)"
    and b: "1 \<le> bombCount s" "bombCount s \<le> 24"
    and k: "0 \<le> safeRevealed s" "safeRevealed s < 25 - bombCount s"
    and m: "0 < currentMultiplier s"
    using playing by (auto simp: solo_inv_def list_all_iff)
  consider (revealed) "isRevealed ?tile" | (bomb) "\<not> isRevealed ?tile" "isBomb ?tile"
    | (safe) "\<not> isRevealed ?tile" "\<not> isBomb ?tile"
    by blast
  then show ?thesis
  proof cases
    case revealed
    then have "s' = s" using red lt by (simp add: Let_def)
    then show ?thesis using inv by simp
  next
    case bomb
    then have "s' = s\<lparr>gameState := Finished, tiles := map (\<lambda>t. t\<lparr>isRevealed := True\<rparr>) (tiles s)\<rparr>"
      using red lt by (simp add: Let_def)
    then show ?thesis
      using len ids b m by (simp add: solo_inv_def list_all_iff)
  next
    case safe
    let ?newTiles = "map (\<lambda>t. if idT t = tileId then t\<lparr>isRevealed := True\<rparr> else t) (tiles s)"
    let ?k = "safeRevealed s + 1"
    let ?m = "calculateMultiplier ?k (bombCount s)"
    have mpos: "0 < ?m"
      using b k by (intro multiplier_pos) simp_all
    have idsN: "\<And>i. i < 25 \<Longrightarrow> idT (?newTiles ! i) = i"
      using len ids by simp
    have nobombN: "\<And>t. t \<in> set ?newTiles \<Longrightarrow> \<not> (isBomb t \<and> isRevealed t)"
    proof -
      fix t assume "t \<in> set ?newTiles"
      then obtain u where u: "u \<in> set (tiles s)"
        and t: "t = (if idT u = tileId then u\<lparr>isRevealed := True\<rparr> else u)"
        by auto
      from u obtain i where i: "i < 25" "u = tiles s ! i"
        using len by (auto simp: in_set_conv_nth)
      show "\<not> (isBomb t \<and> isRevealed t)"
      proof (cases "idT u = tileId")
        case True
        then have "i = tileId" using ids i by simp
        then show ?thesis using t True i safe by simp
      next
        case False
        then show ?thesis using t nobomb u by simp
      qed
    qed
    show ?thesis
    proof (cases "?k = 25 - bombCount s")
      case True
      then have "s' = s\<lparr>tiles := map (\<lambda>t. t\<lparr>isRevealed := True\<rparr>) ?newTiles,
                          safeRevealed := ?k, currentMultiplier := ?m, gameState := Finished\<rparr>"
        using red lt safe by (simp add: Let_def)
      then show ?thesis
        using len ids b mpos by (simp add: solo_inv_def list_all_iff)
    next
      case False
      then have s': "s' = s\<lparr>tiles := ?newTiles, safeRevealed := ?k, currentMultiplier := ?m\<rparr>"
        using red lt safe by (simp add: Let_def)
      have "?k < 25 - bombCount s"
        using k False by simp
      then show ?thesis
        unfolding s' using len idsN nobombN b k mpos playing
        by (simp add: solo_inv_def list_all_iff del: set_map)
    qed
  qed
qed

lemma reachable_inv: "reachable sha s \<Longrightarrow> solo_inv s"
proof (induction rule: reachable.induct)
  case reach_initial
  show ?case by (rule solo_inv_initialState)
next
  case (reach_bet s v s')
  then show ?case by (blast intro: solo_inv_bet)
next
  case (reach_bombs s v s')
  then show ?case by (blast intro: solo_inv_bombs)
next
  case (reach_initialize s seed profileSeed totalGames s')
  then show ?case by (blast intro: solo_inv_initialize)
next
  case (reach_reveal s tileId s')
  then show ?case by (blast intro: solo_inv_reveal)
next
  case (reach_cashOut s s')
  then show ?case by (blast intro: solo_inv_cashOut)
next
  case (reach_reset s s')
  then show ?case by (blast intro: solo_inv_reset)
qed

lemma playing_bomb_hidden:
  assumes "reachable sha s" "gameState s = Playing" "tileId < 25" "isBomb (tiles s ! tileId)"
  shows "tileId < length (tiles s) \<and> \<not> isRevealed (tiles s ! tileId)"
proof -
  have inv: "solo_inv s" using assms(1) by (rule reachable_inv)
  then have len: "length (tiles s) = 25" by (simp add: solo_inv_def)
  then have "tiles s ! tileId \<in> set (tiles s)" using assms(3) by simp
  then have "\<not> (isBomb (tiles s ! tileId) \<and> isRevealed (tiles s ! tileId))"
    using inv assms(2) by (simp add: solo_inv_def list_all_iff)
  then show ?thesis using len assms(3,4) by simp
qed

subsection \<open>Two concrete rounds\<close>

lemma initialize_demoGame:
  "initializeGame demoHash ''abc'' (Some ''def'') (Number 0) initialState = Inr demoGame"
  by (simp add: initializeGame_def initialState_def demoGame_def generateBombLocations_demo)

lemma reachable_demoGame: "reachable demoHash demoGame"
  using reach_initial initialize_demoGame by (rule reach_initialize)

lemma initialize_jackpotGame:
  "initializeGame demoHash ''abc'' (Some ''def'') (Number 0) (initialState\<lparr>bombCount := 24\<rparr>)
     = Inr jackpotGame"
  by (simp add: initializeGame_def initialState_def jackpotGame_def generateBombLocations_demo
      upt_numeral_rec)

lemma reachable_jackpotGame: "reachable demoHash jackpotGame"
proof -
  have "handleBombCountChange initialState 24 = Inr (initialState\<lparr>bombCount := 24\<rparr>)"
    by (simp add: handleBombCountChange_def)
  moreover have "gameState initialState = Betting"
    by (simp add: initialState_def)
  ultimately have "reachable demoHash (initialState\<lparr>bombCount := 24\<rparr>)"
    using reach_bombs [OF reach_initial, of 24 "initialState\<lparr>bombCount := 24\<rparr>" demoHash]
    by simp
  then show ?thesis
    using initialize_jackpotGame by (rule reach_initialize)
qed

subsection \<open>Claims about the solo round\<close>

text \<open>
  Claim C7. In every state that the solo component reaches and in which the round is
  being played, revealing a tile that is a bomb ends the round: the state becomes
  \<open>finished\<close> with every tile revealed, and the settlement effect records the loss of
  the whole stake, with multiplier 0, however many safe tiles were revealed before. (In
  such a state no bomb has been revealed yet, so the reducer does not take its
  already-revealed exit.)
\<close>

theorem C7_bomb_ends_round_with_loss:
  assumes "reachable sha256 s" and "gameState s = Playing"
    and "tileId < 25" and "isBomb (tiles s ! tileId)"
  shows "\<exists>s'. revealTile s tileId = Inr s' \<and> gameState s' = Finished \<and>
           list_all isRevealed (tiles s') \<and>
           settle (gameState s) s'
             = Some \<lparr>netProfit = - betAmount s, wageredAmount = betAmount s, multiplier = 0\<rparr>"
proof -
  let ?s' = "s\<lparr>gameState := Finished, tiles := map (\<lambda>t. t\<lparr>isRevealed := True\<rparr>) (tiles s)\<rparr>"
  have h: "tileId < length (tiles s)" "\<not> isRevealed (tiles s ! tileId)"
    using playing_bomb_hidden [OF assms] by simp_all
  have "gameReducer s (REVEAL_TILE tileId) = Inr ?s'"
    using h(1) assms(4) h(2) by (rule gameReducer_reveal_bomb)
  then have "revealTile s tileId = Inr ?s'"
    using assms(2) by (simp add: revealTile_def)
  moreover have "gameState ?s' = Finished"
    by simp
  moreover have "list_all isRevealed (tiles ?s')"
    by (simp add: all_revealed)
  moreover have "settle (gameState s) ?s'
      = Some \<lparr>netProfit = - betAmount s, wageredAmount = betAmount s, multiplier = 0\<rparr>"
    unfolding assms(2) using h(1) assms(4) by (rule settle_revealed_bomb)
  ultimately show ?thesis by blast
qed

theorem C7_bomb_ends_round_with_loss_witness:
  "reachable demoHash demoGame \<and> gameState demoGame = Playing \<and> (3::nat) < 25 \<and>
   isBomb (tiles demoGame ! 3) \<and>
   (\<exists>s'. revealTile demoGame 3 = Inr s' \<and> gameState s' = Finished \<and>
      list_all isRevealed (tiles s') \<and>
      settle Playing s' = Some \<lparr>netProfit = - (1 / 10), wageredAmount = 1 / 10, multiplier = 0\<rparr>)"
proof -
  have a: "gameState demoGame = Playing" and b: "(3::nat) < 25"
    and c: "isBomb (tiles demoGame ! 3)" and d: "betAmount demoGame = 1 / 10"
    by (simp_all add: demoGame_def upt_numeral_rec)
  show ?thesis
    using C7_bomb_ends_round_with_loss [OF reachable_demoGame a b c] reachable_demoGame a b c d
    by simp
qed

text \<open>
  Claim C10. On the reveal of a bomb the reducer changes the game state and the tiles
  and nothing else: \<open>safeRevealed\<close>, \<open>currentMultiplier\<close>, \<open>betAmount\<close> and \<open>bombCount\<close>
  keep their values, so the finished state holds the multiplier from before the bust,
  which is not 0.
\<close>

theorem C10_bust_changes_only_state_and_tiles:
  assumes "reachable sha256 s" and "gameState s = Playing"
    and "tileId < 25" and "isBomb (tiles s ! tileId)"
  shows "\<exists>s'. gameReducer s (REVEAL_TILE tileId) = Inr s' \<and>
           s' = s\<lparr>gameState := Finished, tiles := map (\<lambda>t. t\<lparr>isRevealed := True\<rparr>) (tiles s)\<rparr> \<and>
           safeRevealed s' = safeRevealed s \<and> currentMultiplier s' = currentMultiplier s \<and>
           betAmount s' = betAmount s \<and> bombCount s' = bombCount s \<and>
           currentMultiplier s' \<noteq> 0"
proof -
  let ?s' = "s\<lparr>gameState := Finished, tiles := map (\<lambda>t. t\<lparr>isRevealed := True\<rparr>) (tiles s)\<rparr>"
  have h: "tileId < length (tiles s)" "\<not> isRevealed (tiles s ! tileId)"
    using playing_bomb_hidden [OF assms] by simp_all
  have "gameReducer s (REVEAL_TILE tileId) = Inr ?s'"
    using h(1) assms(4) h(2) by (rule gameReducer_reveal_bomb)
  moreover have "0 < currentMultiplier s"
    using reachable_inv [OF assms(1)] by (simp add: solo_inv_def)
  ultimately show ?thesis by simp
qed

theorem C10_bust_changes_only_state_and_tiles_witness:
  "reachable demoHash demoGame \<and> gameState demoGame = Playing \<and> (13::nat) < 25 \<and>
   isBomb (tiles demoGame ! 13) \<and>
   (\<exists>s'. gameReducer demoGame (REVEAL_TILE 13) = Inr s' \<and> gameState s' = Finished \<and>
      safeRevealed s' = 0 \<and> currentMultiplier s' = 1 \<and> betAmount s' = 1 / 10 \<and>
      bombCount s' = 5)"
proof -
  have a: "gameState demoGame = Playing" and b: "(13::nat) < 25"
    and c: "isBomb (tiles demoGame ! 13)"
    and d: "betAmount demoGame = 1 / 10" "safeRevealed demoGame = 0"
      "currentMultiplier demoGame = 1" "bombCount demoGame = 5"
    by (simp_all add: demoGame_def upt_numeral_rec)
  show ?thesis
    using C10_bust_changes_only_state_and_tiles [OF reachable_demoGame a b c]
      reachable_demoGame a b c d
    by auto
qed

text \<open>
  Claim C2 says that the reveal of the last safe tile is settled as a win. The reducer
  does finish the round with every tile revealed and with the new multiplier, but the
  settlement effect takes a round for lost as soon as some revealed tile is a bomb, and
  clearing the board has just revealed the bombs: on every board that has a bomb, the
  cleared round is recorded with the loss of the stake and multiplier 0. The witness is
  the round with 24 bombs and the single safe tile 16.
\<close>

theorem C2_board_cleared_recorded_as_loss:
  assumes "gameState s = Playing" and "tileId < length (tiles s)"
    and "\<not> isRevealed (tiles s ! tileId)" and "\<not> isBomb (tiles s ! tileId)"
    and "safeRevealed s + 1 = 25 - bombCount s" and "list_ex isBomb (tiles s)"
  shows "\<exists>s'. revealTile s tileId = Inr s' \<and> gameState s' = Finished \<and>
           list_all isRevealed (tiles s') \<and>
           currentMultiplier s' = calculateMultiplier (safeRevealed s + 1) (bombCount s) \<and>
           settle (gameState s) s'
             = Some \<lparr>netProfit = - betAmount s, wageredAmount = betAmount s, multiplier = 0\<rparr>"
proof -
  let ?newTiles = "map (\<lambda>t. if idT t = tileId then t\<lparr>isRevealed := True\<rparr> else t) (tiles s)"
  let ?s' = "s\<lparr>tiles := map (\<lambda>t. t\<lparr>isRevealed := True\<rparr>) ?newTiles,
               safeRevealed := safeRevealed s + 1,
               currentMultiplier := calculateMultiplier (safeRevealed s + 1) (bombCount s),
               gameState := Finished\<rparr>"
  have "gameReducer s (REVEAL_TILE tileId) = Inr ?s'"
    using assms(2-5) by (simp add: Let_def)
  then have r: "revealTile s tileId = Inr ?s'"
    using assms(1) by (simp add: revealTile_def)
  obtain t where t: "t \<in> set (tiles s)" "isBomb t"
    using assms(6) by (auto simp: list_ex_iff)
  have "list_ex (\<lambda>tile. isBomb tile \<and> isRevealed tile) (tiles ?s')"
    using t by (auto simp: list_ex_iff)
  then have "settle (gameState s) ?s'
      = Some \<lparr>netProfit = - betAmount s, wageredAmount = betAmount s, multiplier = 0\<rparr>"
    using assms(1) by (simp add: settle_def)
  moreover have "list_all isRevealed (tiles ?s')"
    by (simp add: list_all_iff)
  ultimately show ?thesis
    using r by simp
qed

theorem C2_board_cleared_recorded_as_loss_witness:
  "reachable demoHash jackpotGame \<and> gameState jackpotGame = Playing \<and>
   16 < length (tiles jackpotGame) \<and> \<not> isRevealed (tiles jackpotGame ! 16) \<and>
   \<not> isBomb (tiles jackpotGame ! 16) \<and>
   safeRevealed jackpotGame + 1 = 25 - bombCount jackpotGame \<and>
   list_ex isBomb (tiles jackpotGame) \<and>
   (\<exists>s'. revealTile jackpotGame 16 = Inr s' \<and> gameState s' = Finished \<and>
      list_all isRevealed (tiles s') \<and> currentMultiplier s' = 99 / 4 \<and>
      settle Playing s'
        = Some \<lparr>netProfit = - (1 / 10), wageredAmount = 1 / 10, multiplier = 0\<rparr>)"
proof -
  have a: "gameState jackpotGame = Playing" and b: "16 < length (tiles jackpotGame)"
    and c: "\<not> isRevealed (tiles jackpotGame ! 16)" and d: "\<not> isBomb (tiles jackpotGame ! 16)"
    and e: "safeRevealed jackpotGame + 1 = 25 - bombCount jackpotGame"
    and f: "list_ex isBomb (tiles jackpotGame)"
    and g: "betAmount jackpotGame = 1 / 10" "safeRevealed jackpotGame = 0"
      "bombCount jackpotGame = 24"
    by (simp_all add: jackpotGame_def upt_numeral_rec)
  have m: "calculateMultiplier 1 24 = 99 / 4"
    by (simp add: calculateMultiplier_def)
  show ?thesis
    using C2_board_cleared_recorded_as_loss [OF a b c d e f] reachable_jackpotGame a b c d e f g m
    by simp
qed

text \<open>
  Claim C4, as stated, says that a round never starts on a board without bombs when the
  shuffle has returned its empty result. With \<open>totalGames\<close> not a number, the nonce is
  \<open>NaN\<close>, the shuffle returns the empty array, and \<open>initializeGame\<close> starts the round:
  the state is \<open>playing\<close> and no tile is a bomb.
\<close>

theorem C4_counterexample:
  "generateBombLocations demoHash ''abc'' ''def'' (js_add NaN (Number 1)) (Number 5) = [] \<and>
   initializeGame demoHash ''abc'' (Some ''def'') NaN initialState
     = Inr (initialState\<lparr>gameState := Playing\<rparr>) \<and>
   list_ex isBomb (tiles (initialState\<lparr>gameState := Playing\<rparr>)) = False"
  by (simp add: generateBombLocations_def initializeGame_def initialState_def list_ex_iff)

text \<open>
  Claim C4, amended. With an empty server seed or client seed, or a nonce or bomb count
  that is \<open>NaN\<close>, the shuffle returns the empty array. Round creation does not look at
  this: with a positive stake and an empty server seed or a \<open>totalGames\<close> that is \<open>NaN\<close>,
  \<open>initializeGame\<close> starts the round on a board of 25 tiles none of which is a bomb,
  and \<open>bombCount\<close> keeps the configured value.
\<close>

theorem C4_empty_result_starts_round_without_bombs:
  "(serverSeed = [] \<or> clientSeed = [] \<or> isNaN nonce \<or> isNaN bomb_count
      \<longrightarrow> generateBombLocations sha256 serverSeed clientSeed nonce bomb_count = []) \<and>
   (0 < betAmount s \<and> (newServerSeed = [] \<or> isNaN totalGames)
      \<longrightarrow> initializeGame sha256 newServerSeed profileSeed totalGames s
            = Inr (s\<lparr>tiles := map (\<lambda>i. \<lparr>idT = i, isRevealed = False, isBomb = False,
                                         isSelected = False\<rparr>) [0..<25],
                      gameState := Playing, safeRevealed := 0, currentMultiplier := 1\<rparr>))"
proof (intro conjI impI)
  assume "serverSeed = [] \<or> clientSeed = [] \<or> isNaN nonce \<or> isNaN bomb_count"
  then show "generateBombLocations sha256 serverSeed clientSeed nonce bomb_count = []"
    by (simp add: generateBombLocations_def)
next
  assume a: "0 < betAmount s \<and> (newServerSeed = [] \<or> isNaN totalGames)"
  then have "isNaN totalGames \<Longrightarrow> isNaN (js_add totalGames (Number 1))"
    by (cases totalGames) simp_all
  then have "generateBombLocations sha256 newServerSeed c (js_add totalGames (Number 1)) b = []"
    for c b
    using a by (auto simp: generateBombLocations_def)
  then show "initializeGame sha256 newServerSeed profileSeed totalGames s
            = Inr (s\<lparr>tiles := map (\<lambda>i. \<lparr>idT = i, isRevealed = False, isBomb = False,
                                         isSelected = False\<rparr>) [0..<25],
                      gameState := Playing, safeRevealed := 0, currentMultiplier := 1\<rparr>)"
    using a by (simp add: initializeGame_def Let_def)
qed

theorem C4_empty_result_starts_round_without_bombs_witness:
  "(''abc'' = [] \<or> ''def'' = [] \<or> isNaN NaN \<or> isNaN (Number 5)) \<and>
   generateBombLocations demoHash ''abc'' ''def'' NaN (Number 5) = [] \<and>
   0 < betAmount initialState \<and> (''abc'' = [] \<or> isNaN NaN) \<and>
   initializeGame demoHash ''abc'' (Some ''def'') NaN initialState
     = Inr (initialState\<lparr>tiles := map (\<lambda>i. \<lparr>idT = i, isRevealed = False, isBomb = False,
                                               isSelected = False\<rparr>) [0..<25],
                          gameState := Playing, safeRevealed := 0, currentMultiplier := 1\<rparr>)"
proof -
  have a: "''abc'' = [] \<or> ''def'' = [] \<or> isNaN NaN \<or> isNaN (Number 5)"
    and b: "0 < betAmount initialState \<and> (''abc'' = [] \<or> isNaN NaN)"
    by (simp_all add: initialState_def)
  show ?thesis
    using C4_empty_result_starts_round_without_bombs
      [of "''abc''" "''def''" NaN "Number 5" demoHash initialState "''abc''" NaN "Some ''def''"]
      a b
    by blast
qed

section \<open>The duel round\<close>

subsection \<open>Bust flags are never cleared\<close>

lemma processMove_rejected:
  assumes "gameOver st \<or> hasHitBomb m st \<or> activeTurn st \<noteq> m"
  shows "processMove rng st cf t m = Some Rejected"
  using assms by (cases m) (auto simp: processMove_def hasHitBomb_def)

lemma hasHitBomb_plantMines: "hasHitBomb x (plantMines ps st) = hasHitBomb x st"
  by (simp add: plantMines_def hasHitBomb_def split: side.splits)

lemma hasHitBomb_revealBy: "hasHitBomb x st \<Longrightarrow> hasHitBomb x (revealBy st t m)"
  by (simp add: revealBy_def hasHitBomb_def Let_def split: side.splits)

lemma hasHitBomb_concludeMove:
  assumes "concludeMove rng st cf m = Accepted st' cf' r"
  shows "hasHitBomb x st' = hasHitBomb x st"
  using assms
  by (auto simp: concludeMove_def hasHitBomb_def split: prod.splits if_splits option.splits side.splits)

lemma hasHitBomb_processMove:
  assumes "processMove rng st cf t m = Some (Accepted st' cf' r)" "hasHitBomb x st"
  shows "hasHitBomb x st'"
proof -
  from assms(1) obtain st1 where
    st1: "st1 = st \<or> (\<exists>ps. st1 = plantMines ps st)"
    and c: "concludeMove rng (revealBy st1 t m) cf m = Accepted st' cf' r"
    by (auto simp: processMove_def split: if_splits option.splits)
  have "hasHitBomb x st1"
    using st1 assms(2) by (auto simp: hasHitBomb_plantMines)
  then have "hasHitBomb x (revealBy st1 t m)"
    by (rule hasHitBomb_revealBy)
  then show ?thesis
    using hasHitBomb_concludeMove [OF c] by simp
qed

lemma hasHitBomb_turnEffect: "hasHitBomb x (turnEffect st) = hasHitBomb x st"
  by (simp add: turnEffect_def hasHitBomb_def split: side.splits)

lemma hasHitBomb_applyEvent:
  assumes "applyEvent rng (st, cf) e = Some (st', cf')" "hasHitBomb x st"
  shows "hasHitBomb x st'"
proof (cases e)
  case (Move t m)
  show ?thesis
  proof (cases "processMove rng st cf t m")
    case None
    then show ?thesis using assms Move by (simp add: applyEvent_def)
  next
    case (Some res)
    then show ?thesis
      using assms Move hasHitBomb_processMove [of rng st cf t m _ _ _ x]
      by (cases res) (auto simp: applyEvent_def)
  qed
next
  case TurnEffect
  then show ?thesis
    using assms by (auto simp: applyEvent_def hasHitBomb_turnEffect)
next
  case (CoinflipComplete w)
  then show ?thesis
    using assms
    by (auto simp: applyEvent_def handleCoinflipComplete_def hasHitBomb_def
        split: if_splits side.splits)
qed

lemma hasHitBomb_runEvents:
  "runEvents rng (st, cf) es = Some (st', cf') \<Longrightarrow> hasHitBomb x st \<Longrightarrow> hasHitBomb x st'"
proof (induction es arbitrary: st cf)
  case Nil
  then show ?case by simp
next
  case (Cons e es)
  from Cons.prems(1) obtain st1 cf1 where
    a: "applyEvent rng (st, cf) e = Some (st1, cf1)"
    and b: "runEvents rng (st1, cf1) es = Some (st', cf')"
    by (auto split: option.splits)
  have "hasHitBomb x st1"
    using a Cons.prems(2) by (rule hasHitBomb_applyEvent)
  with b show ?case by (rule Cons.IH)
qed

lemma turnEffect_skips:
  assumes "\<not> gameOver st" "activeTurn st = m" "hasHitBomb m st"
  shows "turnEffect st = st\<lparr>activeTurn := otherSide m\<rparr>"
  using assms by (cases m) (simp_all add: turnEffect_def hasHitBomb_def otherSide_def)

subsection \<open>The end of a round on equal scores\<close>

lemma allSafe_activeTurn [simp]:
  "allSafeTilesRevealed (st\<lparr>activeTurn := x\<rparr>) = allSafeTilesRevealed st"
  by (simp add: allSafeTilesRevealed_def)

lemma concludeMove_tie:
  assumes "concludeMove rng st cf m = Accepted st' cf' r"
    and "playerScore st' = opponentScore st'"
    and "allSafeTilesRevealed st' \<or> (playerHasHitBomb st' \<and> opponentHasHitBomb st')"
  shows "st' = st\<lparr>gameOver := True\<rparr> \<and>
         cf' = \<lparr>showC = True, winnerC = Some (coinFlipWinner rng st)\<rparr> \<and> r = None"
proof -
  obtain over w c where e: "evaluateEnd rng st cf = (over, w, c)"
    by (cases "evaluateEnd rng st cf") auto
  show ?thesis
  proof (cases over)
    case False
    then have st': "st' = st\<lparr>activeTurn := (if m = Player then Opponent else Player)\<rparr>"
      using assms(1) e by (simp add: concludeMove_def)
    have "\<not> allSafeTilesRevealed st" "\<not> (playerHasHitBomb st \<and> opponentHasHitBomb st)"
      using e False by (auto simp: evaluateEnd_def split: if_splits)
    then show ?thesis
      using assms(3) st' by simp
  next
    case True
    show ?thesis
    proof (cases w)
      case (Some v)
      then have "playerScore st' = playerScore st" "opponentScore st' = opponentScore st"
        using assms(1) e True by (auto simp: concludeMove_def)
      moreover have "playerScore st \<noteq> opponentScore st"
        using e True Some by (auto simp: evaluateEnd_def split: if_splits)
      ultimately show ?thesis
        using assms(2) by simp
    next
      case None
      then have "c = \<lparr>showC = True, winnerC = Some (coinFlipWinner rng st)\<rparr>"
        using e True by (auto simp: evaluateEnd_def split: if_splits)
      then show ?thesis
        using assms(1) e True None by (simp add: concludeMove_def)
    qed
  qed
qed

lemma revealBy_keeps: "gameSeed (revealBy st t m) = gameSeed st"
  "winner (revealBy st t m) = winner st" "gameOver (revealBy st t m) = gameOver st"
  by (simp_all add: revealBy_def Let_def)

lemma plantMines_keeps: "gameSeed (plantMines ps st) = gameSeed st"
  "winner (plantMines ps st) = winner st"
  by (simp_all add: plantMines_def)

lemma duel_tie_move:
  "processMove demoRandom duelGame noCoinflip 2 Opponent
     = Some (Accepted ((revealBy duelGame 2 Opponent)\<lparr>gameOver := True\<rparr>)
               \<lparr>showC = True, winnerC = Some Opponent\<rparr> None)"
  by (simp add: processMove_def concludeMove_def evaluateEnd_def allSafeTilesRevealed_def
      coinFlipWinner_def demoRandom_def revealBy_def duelGame_def duelTiles_def noCoinflip_def
      Let_def upt_numeral_rec)

lemma spec_normalized_demoHash: "spec_normalized (demoHash s) < 1 / 2"
  by (simp add: spec_normalized_def demoHash_def upt_numeral_rec)

subsection \<open>Claims about the duel round\<close>

text \<open>
  Claim C9. After every run of events of a duel: a move by a side is rejected, and leaves
  the game state and the coinflip state as they are, whenever the round is over, that
  side has hit a bomb, or it is not that side's turn; a side that had hit a bomb before
  the run still has its flag set after it, so each of its later moves is rejected; and
  when it is the turn of a side that has hit a bomb and the round is not over, the turn
  effect passes the turn to the other side and changes nothing else.
\<close>

theorem C9_busted_side_never_moves:
  assumes "runEvents seedrandom (st, cf) events = Some (st', cf')"
  shows "(gameOver st' \<or> hasHitBomb m st' \<or> activeTurn st' \<noteq> m
            \<longrightarrow> processMove seedrandom st' cf' tileId m = Some Rejected \<and>
                applyEvent seedrandom (st', cf') (Move tileId m) = Some (st', cf')) \<and>
         (hasHitBomb m st
            \<longrightarrow> hasHitBomb m st' \<and> processMove seedrandom st' cf' tileId m = Some Rejected) \<and>
         (\<not> gameOver st' \<and> activeTurn st' = m \<and> hasHitBomb m st'
            \<longrightarrow> turnEffect st' = st'\<lparr>activeTurn := otherSide m\<rparr>)"
proof (intro conjI impI)
  assume a: "gameOver st' \<or> hasHitBomb m st' \<or> activeTurn st' \<noteq> m"
  then show r: "processMove seedrandom st' cf' tileId m = Some Rejected"
    by (rule processMove_rejected)
  then show "applyEvent seedrandom (st', cf') (Move tileId m) = Some (st', cf')"
    by (simp add: applyEvent_def)
next
  assume b: "hasHitBomb m st"
  with assms show h: "hasHitBomb m st'"
    by (rule hasHitBomb_runEvents)
  then show "processMove seedrandom st' cf' tileId m = Some Rejected"
    by (intro processMove_rejected) simp
next
  assume "\<not> gameOver st' \<and> activeTurn st' = m \<and> hasHitBomb m st'"
  then show "turnEffect st' = st'\<lparr>activeTurn := otherSide m\<rparr>"
    by (intro turnEffect_skips) simp_all
qed

theorem C9_busted_side_never_moves_witness:
  "runEvents demoRandom (duelGame\<lparr>activeTurn := Player\<rparr>, noCoinflip) [Move 6 Player]
     = Some (duelGame\<lparr>activeTurn := Player\<rparr>, noCoinflip) \<and>
   hasHitBomb Player (duelGame\<lparr>activeTurn := Player\<rparr>) \<and>
   \<not> gameOver (duelGame\<lparr>activeTurn := Player\<rparr>) \<and>
   activeTurn (duelGame\<lparr>activeTurn := Player\<rparr>) = Player \<and>
   processMove demoRandom (duelGame\<lparr>activeTurn := Player\<rparr>) noCoinflip 7 Player = Some Rejected \<and>
   applyEvent demoRandom (duelGame\<lparr>activeTurn := Player\<rparr>, noCoinflip) (Move 7 Player)
     = Some (duelGame\<lparr>activeTurn := Player\<rparr>, noCoinflip) \<and>
   turnEffect (duelGame\<lparr>activeTurn := Player\<rparr>)
     = duelGame\<lparr>activeTurn := Player, activeTurn := otherSide Player\<rparr>"
proof -
  let ?st = "duelGame\<lparr>activeTurn := Player\<rparr>"
  have run: "runEvents demoRandom (?st, noCoinflip) [Move 6 Player] = Some (?st, noCoinflip)"
    by (simp add: applyEvent_def processMove_def duelGame_def)
  have h: "hasHitBomb Player ?st" and g: "\<not> gameOver ?st" and a: "activeTurn ?st = Player"
    by (simp_all add: hasHitBomb_def duelGame_def)
  show ?thesis
    using C9_busted_side_never_moves [OF run, of Player 7] run h g a by simp
qed

text \<open>
  Claim C3, as stated, derives the winner of the coinflip from
  \<open>SHA256(round_seed || "tie")\<close>. \<open>processMove\<close> never calls the hash: it asks the
  generator \<open>seedrandom(gameSeed + 'tie')\<close> for its first number. In the duel below, on
  the opponent's move to the bomb at tile 2, the generator's \<open>3/4\<close> makes the opponent
  the winner of the coinflip, while the coin of the specification, from a digest below
  one half, names the player.
\<close>

theorem C3_counterexample:
  "coinflipOf (processMove demoRandom duelGame noCoinflip 2 Opponent) = Some Opponent \<and>
   spec_coinflip demoHash (gameSeed duelGame) = Player"
proof -
  have "spec_coinflip demoHash (gameSeed duelGame) = Player"
    unfolding spec_coinflip_def using spec_normalized_demoHash by (rule if_P)
  then show ?thesis
    by (simp add: duel_tie_move coinflipOf_def)
qed

text \<open>
  Claim C3, amended. When an accepted move leaves both sides with equal scores and
  either all safe tiles are revealed or both sides have hit a bomb, the round is over
  with no winner yet and no settlement record, and the coinflip is shown with the winner
  \<open>player\<close> if the first number of \<open>seedrandom(gameSeed + 'tie')\<close> is below one half and
  \<open>opponent\<close> otherwise. The end of the coinflip sets the winner of the game to the one
  side it is called with: a side, never a tie, and never nothing.
\<close>

theorem C3_tie_enters_coinflip:
  assumes "processMove seedrandom st cf tileId m = Some (Accepted st' cf' r)"
    and "winner st = None"
    and "playerScore st' = opponentScore st'"
    and "allSafeTilesRevealed st' \<or> (playerHasHitBomb st' \<and> opponentHasHitBomb st')"
  shows "gameOver st' \<and> winner st' = None \<and> r = None \<and>
         cf' = \<lparr>showC = True,
                winnerC = Some (if seedrandom (gameSeed st @ ''tie'') 0 < 1 / 2
                                then Player else Opponent)\<rparr> \<and>
         applyEvent seedrandom (st', cf') (CoinflipComplete w)
           = Some (st'\<lparr>winner := Some (Won w)\<rparr>, cf'\<lparr>showC := False\<rparr>) \<and>
         Won w \<noteq> Tie"
proof -
  from assms(1) obtain st1 where
    st1: "st1 = st \<or> (\<exists>ps. st1 = plantMines ps st)"
    and c: "concludeMove seedrandom (revealBy st1 tileId m) cf m = Accepted st' cf' r"
    by (auto simp: processMove_def split: if_splits option.splits)
  let ?st2 = "revealBy st1 tileId m"
  have seed: "gameSeed ?st2 = gameSeed st" and win: "winner ?st2 = None"
    using st1 assms(2) by (auto simp: revealBy_keeps plantMines_keeps)
  have t: "st' = ?st2\<lparr>gameOver := True\<rparr>"
    "cf' = \<lparr>showC = True, winnerC = Some (coinFlipWinner seedrandom ?st2)\<rparr>" "r = None"
    using concludeMove_tie [OF c assms(3,4)] by simp_all
  have "coinFlipWinner seedrandom ?st2
      = (if seedrandom (gameSeed st @ ''tie'') 0 < 1 / 2 then Player else Opponent)"
    by (simp add: coinFlipWinner_def seed)
  then show ?thesis
    using t win by (simp add: applyEvent_def handleCoinflipComplete_def)
qed

theorem C3_tie_enters_coinflip_witness:
  "processMove demoRandom duelGame noCoinflip 2 Opponent
     = Some (Accepted ((revealBy duelGame 2 Opponent)\<lparr>gameOver := True\<rparr>)
               \<lparr>showC = True, winnerC = Some Opponent\<rparr> None) \<and>
   winner duelGame = None \<and>
   playerScore ((revealBy duelGame 2 Opponent)\<lparr>gameOver := True\<rparr>)
     = opponentScore ((revealBy duelGame 2 Opponent)\<lparr>gameOver := True\<rparr>) \<and>
   playerHasHitBomb ((revealBy duelGame 2 Opponent)\<lparr>gameOver := True\<rparr>) \<and>
   opponentHasHitBomb ((revealBy duelGame 2 Opponent)\<lparr>gameOver := True\<rparr>) \<and>
   gameOver ((revealBy duelGame 2 Opponent)\<lparr>gameOver := True\<rparr>) \<and>
   winner ((revealBy duelGame 2 Opponent)\<lparr>gameOver := True\<rparr>) = None \<and>
   applyEvent demoRandom
       ((revealBy duelGame 2 Opponent)\<lparr>gameOver := True\<rparr>, \<lparr>showC = True, winnerC = Some Opponent\<rparr>)
       (CoinflipComplete Opponent)
     = Some ((revealBy duelGame 2 Opponent)\<lparr>gameOver := True, winner := Some (Won Opponent)\<rparr>,
             \<lparr>showC = False, winnerC = Some Opponent\<rparr>)"
proof -
  let ?st' = "(revealBy duelGame 2 Opponent)\<lparr>gameOver := True\<rparr>"
  have a: "winner duelGame = None"
    by (simp add: duelGame_def)
  have b: "playerScore ?st' = opponentScore ?st'"
    and c: "playerHasHitBomb ?st' \<and> opponentHasHitBomb ?st'"
    by (simp_all add: revealBy_def duelGame_def duelTiles_def Let_def upt_numeral_rec)
  have d: "allSafeTilesRevealed ?st' \<or> (playerHasHitBomb ?st' \<and> opponentHasHitBomb ?st')"
    using c by simp
  show ?thesis
    using C3_tie_enters_coinflip [OF duel_tie_move a b d, of Opponent] duel_tie_move a b c
    by simp
qed

end
